theory Spec2Isabelle
  imports Complex_Main
begin

section \<open>The snake game of \<open>src/app/snake/page.tsx\<close>\<close>

text \<open>
  The page component keeps the game in mutable refs (board, snake, food, the two
  directions) and in React state (status, score, high score). The model is one record of
  all of them, passed through every handler. Grid coordinates, board dimensions and scores
  are JavaScript numbers that only ever hold integers; they are \<open>int\<close> here. \<open>draw\<close>
  only paints the canvas and reads the state, so it has no counterpart.
\<close>

subsection \<open>Data\<close>

datatype Direction = Up | Down | Left | Right

record Point =
  x :: int
  y :: int

record Board =
  cols :: int
  rows :: int
  cell :: int
  width :: int
  height :: int
  dpr :: real

datatype Status = Ready | Running | Gameover

fun directionVectors :: "Direction \<Rightarrow> Point" where
  "directionVectors Up = \<lparr>x = 0, y = -1\<rparr>"
| "directionVectors Down = \<lparr>x = 0, y = 1\<rparr>"
| "directionVectors Left = \<lparr>x = -1, y = 0\<rparr>"
| "directionVectors Right = \<lparr>x = 1, y = 0\<rparr>"

fun opposite :: "Direction \<Rightarrow> Direction" where
  "opposite Up = Down"
| "opposite Down = Up"
| "opposite Left = Right"
| "opposite Right = Left"

text \<open>
  TypeScript types the two direction refs as \<open>Direction\<close>, but at run time
  \<open>pendingDirectionRef\<close> takes whatever \<open>controls[key]\<close> finds, and besides the four
  strings that can be the function \<open>Object\<close> or the object \<open>Object.prototype\<close> (see
  \<open>controls\<close> below). \<open>Value\<close> is what the refs can hold. The two tables are indexed with
  such a value: a direction string finds its entry, the other two values, turned into a
  property name, find nothing, and the lookup is \<open>undefined\<close>.
\<close>

datatype Value = Dir Direction | ObjectConstructor | ObjectPrototype

fun lookupVector :: "Value \<Rightarrow> Point option" where
  "lookupVector (Dir d) = Some (directionVectors d)"
| "lookupVector ObjectConstructor = None"
| "lookupVector ObjectPrototype = None"

fun lookupOpposite :: "Value \<Rightarrow> Value option" where
  "lookupOpposite (Dir d) = Some (Dir (opposite d))"
| "lookupOpposite ObjectConstructor = None"
| "lookupOpposite ObjectPrototype = None"

definition clamp :: "int \<Rightarrow> int \<Rightarrow> int \<Rightarrow> int" where
  "clamp v lo hi = min hi (max lo v)"

subsection \<open>Random numbers\<close>

text \<open>
  \<open>Math.random()\<close> is the only input of \<open>spawnFood\<close> that is not an argument. It returns
  a double that is at least 0 and less than 1. Every such double is \<open>mant / 2 ^ expo\<close> for
  a natural number \<open>mant\<close> below \<open>2 ^ 53\<close> and an \<open>expo\<close> of at most 1074; a \<open>Draw\<close> holds
  the two numbers, and \<open>unitDouble\<close> says that they are in that range. A value of type
  \<open>rng\<close> is the sequence of doubles that the coming calls of \<open>Math.random()\<close> return:
  \<open>r 0\<close> is the next one.
\<close>

record Draw =
  mant :: nat
  expo :: nat

definition unitDouble :: "Draw \<Rightarrow> bool" where
  "unitDouble u = (mant u < 2 ^ 53 \<and> mant u < 2 ^ expo u \<and> expo u \<le> 1074)"

type_synonym rng = "nat \<Rightarrow> Draw"

definition unit_draws :: "rng \<Rightarrow> bool" where
  "unit_draws r = (\<forall>n. unitDouble (r n))"

definition advance :: "nat \<Rightarrow> rng \<Rightarrow> rng" where
  "advance k r = (\<lambda>n. r (n + k))"

text \<open>
  \<open>randomInt\<close> takes the double drawn as its second argument. The product
  \<open>Math.random() * max\<close> is a product of doubles: the exact product, rounded to 53
  significant bits, to the nearest and on a tie to the even neighbour. With the draw
  \<open>mant / 2 ^ expo\<close> and a whole number \<open>max\<close>, the exact product is the whole number
  \<open>mant * max\<close> over \<open>2 ^ expo\<close>, and rounding it is rounding \<open>mant * max\<close>: \<open>bits\<close> counts
  the binary digits of a number and \<open>roundTo53\<close> rounds it to 53 of them. \<open>Math.floor\<close> of
  the rounded product is then a division of whole numbers, rounded down, also for a
  negative \<open>max\<close>.
\<close>

fun bits :: "nat \<Rightarrow> nat" where
  "bits n = (if n = 0 then 0 else Suc (bits (n div 2)))"

definition roundTo53 :: "nat \<Rightarrow> nat" where
  "roundTo53 n =
     (if bits n \<le> 53 then n
      else
        (let sh = bits n - 53;
             q = n div 2 ^ sh;
             rm = n mod 2 ^ sh;
             half = 2 ^ (sh - 1)
         in (if half < rm \<or> (rm = half \<and> odd q) then q + 1 else q) * 2 ^ sh))"

definition randomInt :: "int \<Rightarrow> Draw \<Rightarrow> int" where
  "randomInt mx u =
     (if 0 \<le> mx then int (roundTo53 (mant u * nat mx) div 2 ^ expo u)
      else - int ((roundTo53 (mant u * nat (- mx)) + 2 ^ expo u - 1) div 2 ^ expo u))"

subsection \<open>Template strings\<close>

text \<open>
  \<open>spawnFood\<close> stores the snake's cells in a \<open>Set\<close> of strings \<open>`${x}-${y}`\<close>. For an
  integer, \<open>`${n}`\<close> is its decimal numeral, with a minus sign in front when it is negative.
\<close>

definition digit :: "nat \<Rightarrow> char" where
  "digit d = char_of (48 + d)"

fun digits :: "nat \<Rightarrow> string" where
  "digits n = (if n < 10 then [digit n] else digits (n div 10) @ [digit (n mod 10)])"

definition numberToString :: "int \<Rightarrow> string" where
  "numberToString i = (if i < 0 then CHR ''-'' # digits (nat (- i)) else digits (nat i))"

definition cellKey :: "int \<Rightarrow> int \<Rightarrow> string" where
  "cellKey a b = numberToString a @ ''-'' @ numberToString b"

subsection \<open>Food placement\<close>

text \<open>
  The \<open>for\<close> loop of \<open>spawnFood\<close>, from the attempt number it is at. Each attempt draws
  twice. The result is the cell and the random numbers left for later calls.
\<close>

function spawnFood_loop :: "string set \<Rightarrow> Board \<Rightarrow> nat \<Rightarrow> rng \<Rightarrow> Point \<times> rng" where
  "spawnFood_loop occupied bd attempt r =
     (if attempt < 500 then
        (let a = randomInt (cols bd) (r 0);
             b = randomInt (rows bd) (r 1)
         in if cellKey a b \<notin> occupied then (\<lparr>x = a, y = b\<rparr>, advance 2 r)
            else spawnFood_loop occupied bd (attempt + 1) (advance 2 r))
      else (\<lparr>x = 0, y = 0\<rparr>, r))"
  by pat_completeness auto
termination
  by (relation "measure (\<lambda>(occupied, bd, attempt, r). 500 - attempt)") auto

definition spawnFood :: "Point list \<Rightarrow> Board \<Rightarrow> rng \<Rightarrow> Point \<times> rng" where
  "spawnFood sn bd r =
     (let occupied = set (map (\<lambda>segment. cellKey (x segment) (y segment)) sn)
      in spawnFood_loop occupied bd 0 r)"

subsection \<open>The game state\<close>

text \<open>
  \<open>status\<close> stands for both the React state \<open>status\<close> and \<open>statusRef\<close>, which an effect
  sets to it after every render. \<open>random\<close> is the state of \<open>Math.random\<close>.
\<close>

record State =
  board :: Board
  snake :: "Point list"
  food :: Point
  direction :: Value
  pendingDirection :: Value
  status :: Status
  score :: int
  highScore :: int
  random :: rng

text \<open>
  The state of the first render: the initial values of the refs and of \<open>useState\<close>. The
  stored high score and the random numbers are given from outside.
\<close>

definition initialState :: "int \<Rightarrow> rng \<Rightarrow> State" where
  "initialState stored r =
     \<lparr>board = \<lparr>cols = 0, rows = 0, cell = 0, width = 0, height = 0, dpr = 1\<rparr>,
      snake = [],
      food = \<lparr>x = 0, y = 0\<rparr>,
      direction = Dir Right,
      pendingDirection = Dir Right,
      status = Ready,
      score = 0,
      highScore = stored,
      random = r\<rparr>"

subsection \<open>Handlers\<close>

definition resetSnake :: "State \<Rightarrow> State" where
  "resetSnake s =
     (let bd = board s
      in if cols bd = 0 \<or> rows bd = 0 then s
         else
           (let startX = cols bd div 2;
                startY = rows bd div 2;
                sn = [\<lparr>x = startX, y = startY\<rparr>,
                      \<lparr>x = startX - 1, y = startY\<rparr>,
                      \<lparr>x = startX - 2, y = startY\<rparr>];
                (f, r) = spawnFood sn bd (random s)
            in s\<lparr>snake := sn, direction := Dir Right, pendingDirection := Dir Right,
                 food := f, random := r\<rparr>))"

text \<open>
  \<open>updateBoard\<close> reads the container's bounding box and \<open>window.devicePixelRatio\<close>; they
  are its arguments here, and \<open>None\<close> stands for a container or canvas that is not mounted.
  The sizes are reals, and the divisions are exact. What follows uses of the result only
  that it has at least 12 columns and rows, which holds of the rounded quotients too, and
  its value at 400 by 300, where the rounded and the exact quotients have the same floor.
\<close>

definition updateBoard :: "(real \<times> real) option \<Rightarrow> real \<Rightarrow> State \<Rightarrow> State" where
  "updateBoard bounds devicePixelRatio s =
     (case bounds of
        None \<Rightarrow> s
      | Some (bw, bh) \<Rightarrow>
          (let dpr' = (if devicePixelRatio = 0 then 1 else devicePixelRatio);
               cell' = clamp \<lfloor>min bw bh / 28\<rfloor> 14 26;
               cols' = max 12 \<lfloor>bw / of_int cell'\<rfloor>;
               rows' = max 12 \<lfloor>bh / of_int cell'\<rfloor>;
               width' = cols' * cell';
               height' = rows' * cell';
               s1 = s\<lparr>board := \<lparr>cols = cols', rows = rows', cell = cell',
                                  width = width', height = height', dpr = dpr'\<rparr>\<rparr>
           in if status s1 = Ready then resetSnake s1 else s1))"

definition startGame :: "State \<Rightarrow> State" where
  "startGame s =
     (if cols (board s) = 0 then s
      else (resetSnake (s\<lparr>score := 0\<rparr>))\<lparr>status := Running\<rparr>)"

definition endGame :: "State \<Rightarrow> State" where
  "endGame s = s\<lparr>status := Gameover\<rparr>"

text \<open>
  \<open>tick\<close> returns nothing and works on the refs in place. The model returns the state it
  leaves behind together with how it ended: with a \<open>TypeError\<close>, or by one of its returns.
  The \<open>TypeError\<close> comes from the line that computes \<open>next\<close>: from reading \<open>head.x\<close> when
  \<open>snake[0]\<close> is \<open>undefined\<close>, or from reading \<open>vector.x\<close> when \<open>directionVectors\<close> has no
  entry for the direction. The returns carry the names the specification gives them:
  \<open>Died\<close> for the return after \<open>endGame()\<close>, \<open>Ate\<close> for the end of the function when
  \<open>hasEaten\<close> holds, \<open>Moved\<close> for the end of the function otherwise, and \<open>None\<close> for the
  first return, on a board without columns or rows.
\<close>

datatype error = TypeError

datatype TickOutcome = Moved | Ate | Died

definition tick :: "State \<Rightarrow> (error + TickOutcome option) \<times> State" where
  "tick s =
     (let bd = board s
      in if cols bd = 0 \<or> rows bd = 0 then (Inr None, s)
         else
           (let sn = snake s;
                dir = pendingDirection s;
                s1 = s\<lparr>direction := dir\<rparr>
            in case sn of
                 [] \<Rightarrow> (Inl TypeError, s1)
               | head # _ \<Rightarrow>
                   (case lookupVector dir of
                      None \<Rightarrow> (Inl TypeError, s1)
                    | Some vector \<Rightarrow>
                   (let next = \<lparr>x = x head + x vector, y = y head + y vector\<rparr>
                    in if x next < 0 \<or> y next < 0 \<or> x next \<ge> cols bd \<or> y next \<ge> rows bd \<or>
                          list_ex (\<lambda>segment. x segment = x next \<and> y segment = y next) sn
                       then (Inr (Some Died), endGame s1)
                       else
                         (let hasEaten = (x next = x (food s1) \<and> y next = y (food s1));
                              nextSnake = (if \<not> hasEaten then butlast (next # sn) else next # sn);
                              s2 = s1\<lparr>snake := nextSnake\<rparr>
                          in if hasEaten then
                               (let nextScore = score s2 + 1;
                                    s3 = s2\<lparr>score := nextScore,
                                            highScore := max (highScore s2) nextScore\<rparr>;
                                    (f, r) = spawnFood nextSnake bd (random s3)
                                in (Inr (Some Ate), s3\<lparr>food := f, random := r\<rparr>))
                             else (Inr (Some Moved), s2))))))"

text \<open>
  \<open>handleKey\<close> looks the key up after \<open>toLowerCase\<close>. Only the letters A to Z matter to
  the lookup, so \<open>toLowerCase\<close> maps those.
\<close>

definition toLowerCase :: "string \<Rightarrow> string" where
  "toLowerCase k =
     map (\<lambda>c. if 65 \<le> (of_char c :: nat) \<and> (of_char c :: nat) \<le> 90
               then char_of ((of_char c :: nat) + 32) else c) k"

text \<open>
  \<open>controls[key]\<close> is a property lookup on an object literal: it finds the eight
  properties written there and, through the prototype chain, those of
  \<open>Object.prototype\<close>. Of the latter only \<open>constructor\<close> and \<open>__proto__\<close> have a name
  without a capital letter, so only they can be found under a key in lower case; their
  values are the function \<open>Object\<close> and \<open>Object.prototype\<close> itself. For every other key
  the lookup is \<open>undefined\<close>. All ten values are truthy.
\<close>

definition controls :: "string \<Rightarrow> Value option" where
  "controls key =
     (case map_of
        [(''arrowup'', Up), (''arrowdown'', Down), (''arrowleft'', Left), (''arrowright'', Right),
         (''w'', Up), (''s'', Down), (''a'', Left), (''d'', Right)] key of
        Some d \<Rightarrow> Some (Dir d)
      | None \<Rightarrow>
          if key = ''constructor'' then Some ObjectConstructor
          else if key = ''__proto__'' then Some ObjectPrototype
          else None)"

text \<open>
  The last two statements of \<open>handleKey\<close>, which the specification calls
  \<open>requestDirection\<close>: the value found in \<open>controls\<close> is compared by \<open>===\<close> with
  \<open>opposite[current]\<close>, where \<open>current\<close> is \<open>directionRef.current\<close>.
\<close>

definition requestDirection :: "Value \<Rightarrow> State \<Rightarrow> State" where
  "requestDirection nextDirection s =
     (let current = direction s
      in if lookupOpposite current = Some nextDirection then s
         else s\<lparr>pendingDirection := nextDirection\<rparr>)"

definition handleKey :: "string \<Rightarrow> State \<Rightarrow> State" where
  "handleKey eventKey s =
     (let key = toLowerCase eventKey
      in if key = '' '' \<or> key = ''enter'' then
           (if status s \<noteq> Running then startGame s else s)
         else if key = ''r'' then startGame s
         else
           (case controls key of
              None \<Rightarrow> s
            | Some nextDirection \<Rightarrow> requestDirection nextDirection s))"

subsection \<open>Events\<close>

text \<open>
  What the page reacts to: the resize observer calls \<open>updateBoard\<close>, a key goes to
  \<open>handleKey\<close>, the two buttons call \<open>startGame\<close>, and the interval calls \<open>tick\<close>. The
  effect that installs the interval returns at once unless \<open>status\<close> is \<open>running\<close> and
  clears the interval when \<open>status\<close> changes, so a timer event reaches \<open>tick\<close> only in a
  running game. An exception thrown inside the interval callback is reported by the browser
  and leaves the refs as they are at the throw.
\<close>

datatype Event =
  Resize "(real \<times> real) option" real
| KeyDown string
| ClickStart
| Timer

fun step :: "State \<Rightarrow> Event \<Rightarrow> State" where
  "step s (Resize bounds devicePixelRatio) = updateBoard bounds devicePixelRatio s"
| "step s (KeyDown k) = handleKey k s"
| "step s ClickStart = startGame s"
| "step s Timer = (if status s = Running then snd (tick s) else s)"

definition run :: "State \<Rightarrow> Event list \<Rightarrow> State" where
  "run s evs = foldl step s evs"

subsection \<open>Notions used in the statements\<close>

text \<open>
  The \<open>Set\<close> that \<open>spawnFood\<close> builds from the snake, and the cell that its attempt
  number \<open>k\<close> draws (attempts count from 0, and attempt \<open>k\<close> uses the draws \<open>2 k\<close> and
  \<open>2 k + 1\<close>).
\<close>

definition keys :: "Point list \<Rightarrow> string set" where
  "keys sn = set (map (\<lambda>segment. cellKey (x segment) (y segment)) sn)"

definition sample :: "Board \<Rightarrow> rng \<Rightarrow> nat \<Rightarrow> Point" where
  "sample bd r k =
     \<lparr>x = randomInt (cols bd) (r (2 * k)), y = randomInt (rows bd) (r (2 * k + 1))\<rparr>"

text \<open>A cell lies on the board; the cell one step from \<open>p\<close> in direction \<open>d\<close>.\<close>

definition inGrid :: "Board \<Rightarrow> Point \<Rightarrow> bool" where
  "inGrid bd p = (0 \<le> x p \<and> x p < cols bd \<and> 0 \<le> y p \<and> y p < rows bd)"

definition moved :: "Point \<Rightarrow> Direction \<Rightarrow> Point" where
  "moved p d = \<lparr>x = x p + x (directionVectors d), y = y p + y (directionVectors d)\<rparr>"

text \<open>
  The events that ask for a new run: a click on a start button, and the keys that
  \<open>handleKey\<close> answers with \<open>startGame\<close>.
\<close>

fun startsGame :: "Event \<Rightarrow> bool" where
  "startsGame ClickStart = True"
| "startsGame (KeyDown k) = (toLowerCase k \<in> {'' '', ''enter'', ''r''})"
| "startsGame (Resize bounds devicePixelRatio) = False"
| "startsGame Timer = False"

text \<open>
  The states the page can be in: those that events lead to from the state of the first
  render. \<open>wellFormed\<close> is what they all satisfy: the board is either the unsized one of
  the first render, with no run started yet, or at least 12 by 12 with a snake on it.
\<close>

inductive reachable :: "State \<Rightarrow> bool" where
  first: "reachable (initialState stored r)"
| after: "reachable s \<Longrightarrow> reachable (step s e)"

definition wellFormed :: "State \<Rightarrow> bool" where
  "wellFormed s =
     (0 \<le> score s \<and>
      (cols (board s) = 0 \<and> rows (board s) = 0 \<and> score s = 0 \<and> status s = Ready \<or>
       12 \<le> cols (board s) \<and> 12 \<le> rows (board s) \<and> snake s \<noteq> []))"

text \<open>Sequences of draws for examples: one value forever.\<close>

definition always :: "Draw \<Rightarrow> rng" where
  "always u = (\<lambda>n. u)"

text \<open>The double \<open>a / 2 ^ e\<close>.\<close>

definition dyadic :: "nat \<Rightarrow> nat \<Rightarrow> Draw" where
  "dyadic a e = \<lparr>mant = a, expo = e\<rparr>"

text \<open>A board of the given size with cells of 14 pixels, as \<open>updateBoard\<close> builds it.\<close>

definition boardOf :: "int \<Rightarrow> int \<Rightarrow> Board" where
  "boardOf c w = \<lparr>cols = c, rows = w, cell = 14, width = c * 14, height = w * 14, dpr = 1\<rparr>"

text \<open>
  A running game on a board of 12 by 12 cells, for examples: the snake, the food, the
  current and the pending direction are given. Every draw is one half.
\<close>

definition game :: "Point list \<Rightarrow> Point \<Rightarrow> Direction \<Rightarrow> Direction \<Rightarrow> State" where
  "game sn f d p =
     \<lparr>board = boardOf 12 12, snake = sn, food = f, direction = Dir d,
      pendingDirection = Dir p, status = Running, score = 0, highScore = 0,
      random = always (dyadic 2 2)\<rparr>"

text \<open>The snake that \<open>resetSnake\<close> lays on a board.\<close>

definition initialSnake :: "Board \<Rightarrow> Point list" where
  "initialSnake bd =
     [\<lparr>x = cols bd div 2, y = rows bd div 2\<rparr>,
      \<lparr>x = cols bd div 2 - 1, y = rows bd div 2\<rparr>,
      \<lparr>x = cols bd div 2 - 2, y = rows bd div 2\<rparr>]"

section \<open>Lemmas\<close>

declare digits.simps [simp del]
declare spawnFood_loop.simps [simp del]
declare bits.simps [simp del]

subsection \<open>The string keys of cells determine the cell\<close>

lemma of_char_digit: "d < 10 \<Longrightarrow> (of_char (digit d) :: nat) = 48 + d"
  by (simp add: digit_def)

lemma digit_inj:
  assumes "a < 10" and "b < 10" and "digit a = digit b"
  shows "a = b"
proof -
  have "(of_char (digit a) :: nat) = of_char (digit b)"
    using assms(3) by simp
  then have "48 + a = 48 + b"
    using assms(1,2) by (simp only: of_char_digit)
  then show ?thesis by simp
qed

lemma digit_not_minus: "d < 10 \<Longrightarrow> digit d \<noteq> CHR ''-''"
proof
  assume "d < 10" and "digit d = CHR ''-''"
  then have "(of_char (CHR ''-'') :: nat) = 48 + d"
    using of_char_digit [of d] by simp
  then show False by simp
qed

lemma digits_nonempty: "digits n \<noteq> []"
  by (subst digits.simps) simp

lemma minus_notin_digits: "CHR ''-'' \<notin> set (digits n)"
proof (induction n rule: digits.induct)
  case (1 n)
  show ?case
  proof (cases "n < 10")
    case True
    then show ?thesis using digit_not_minus [of n] by (subst digits.simps) auto
  next
    case False
    moreover have "n mod 10 < 10" by simp
    ultimately show ?thesis
      using 1 digit_not_minus [of "n mod 10"] by (subst digits.simps) auto
  qed
qed

lemma digits_inj: "digits n = digits m \<Longrightarrow> n = m"
proof (induction n arbitrary: m rule: digits.induct)
  case (1 n)
  show ?case
  proof (cases "n < 10")
    case n: True
    show ?thesis
    proof (cases "m < 10")
      case True
      with n 1(2) show ?thesis
        using digit_inj [of n m] by (simp add: digits.simps [of n] digits.simps [of m])
    next
      case False
      with n 1(2) have "digits (m div 10) = []"
        by (simp add: digits.simps [of n] digits.simps [of m])
      then show ?thesis using digits_nonempty by simp
    qed
  next
    case n: False
    show ?thesis
    proof (cases "m < 10")
      case True
      with n 1(2) have "digits (n div 10) = []"
        by (simp add: digits.simps [of n] digits.simps [of m])
      then show ?thesis using digits_nonempty by simp
    next
      case False
      with n 1(2) have eq: "digits (n div 10) = digits (m div 10)"
        and d: "digit (n mod 10) = digit (m mod 10)"
        by (simp_all add: digits.simps [of n] digits.simps [of m])
      from 1(1) [OF n eq] have "n div 10 = m div 10" .
      moreover from d have "n mod 10 = m mod 10"
        using digit_inj [of "n mod 10" "m mod 10"] by simp
      ultimately show ?thesis
        by (metis div_mult_mod_eq)
    qed
  qed
qed

lemma hd_digits: "hd (digits n) \<noteq> CHR ''-''"
proof -
  have "hd (digits n) \<in> set (digits n)"
    using digits_nonempty by (rule hd_in_set)
  then show ?thesis
    using minus_notin_digits [of n] by metis
qed

lemma numberToString_inj: "numberToString i = numberToString j \<Longrightarrow> i = j"
proof -
  assume eq: "numberToString i = numberToString j"
  show ?thesis
  proof (cases "i < 0"; cases "j < 0")
    assume neg: "i < 0" "j < 0"
    with eq have "digits (nat (- i)) = digits (nat (- j))"
      by (simp add: numberToString_def)
    then have "nat (- i) = nat (- j)" by (rule digits_inj)
    with neg show ?thesis by simp
  next
    assume "i < 0" "\<not> j < 0"
    with eq have "CHR ''-'' # digits (nat (- i)) = digits (nat j)"
      by (simp add: numberToString_def)
    then have "hd (digits (nat j)) = CHR ''-''"
      using list.sel(1) [of "CHR ''-''" "digits (nat (- i))"] by simp
    with hd_digits show ?thesis by simp
  next
    assume "\<not> i < 0" "j < 0"
    with eq have "CHR ''-'' # digits (nat (- j)) = digits (nat i)"
      by (simp add: numberToString_def)
    then have "hd (digits (nat i)) = CHR ''-''"
      using list.sel(1) [of "CHR ''-''" "digits (nat (- j))"] by simp
    with hd_digits show ?thesis by simp
  next
    assume pos: "\<not> i < 0" "\<not> j < 0"
    with eq have "digits (nat i) = digits (nat j)"
      by (simp add: numberToString_def)
    then have "nat i = nat j" by (rule digits_inj)
    with pos show ?thesis by simp
  qed
qed

lemma split_at_first:
  "c \<notin> set u \<Longrightarrow> c \<notin> set u' \<Longrightarrow> u @ c # v = u' @ c # v' \<Longrightarrow> u = u' \<and> v = v'"
proof (induction u arbitrary: u')
  case Nil
  then show ?case by (cases u') auto
next
  case (Cons a u)
  then show ?case by (cases u') auto
qed


lemma numberToString_shape:
  "\<exists>sg ds. numberToString i = sg @ ds \<and> (sg = [] \<or> sg = ''-'') \<and> ds \<noteq> [] \<and> CHR ''-'' \<notin> set ds"
proof (cases "i < 0")
  case True
  then have "numberToString i = ''-'' @ digits (nat (- i))"
    by (simp add: numberToString_def)
  then show ?thesis using digits_nonempty minus_notin_digits by blast
next
  case False
  then have "numberToString i = [] @ digits (nat i)"
    by (simp add: numberToString_def)
  then show ?thesis using digits_nonempty minus_notin_digits by blast
qed

lemma signed_split:
  assumes u: "(sg = [] \<or> sg = ''-'')" "ds \<noteq> []" "CHR ''-'' \<notin> set ds"
    and u': "(sg' = [] \<or> sg' = ''-'')" "ds' \<noteq> []" "CHR ''-'' \<notin> set ds'"
    and eq: "(sg @ ds) @ CHR ''-'' # v = (sg' @ ds') @ CHR ''-'' # v'"
  shows "sg @ ds = sg' @ ds' \<and> v = v'"
proof -
  have hd1: "hd ds \<noteq> CHR ''-''" using u(2,3) hd_in_set [of ds] by metis
  have hd2: "hd ds' \<noteq> CHR ''-''" using u'(2,3) hd_in_set [of ds'] by metis
  have same: "sg = sg'"
  proof (rule ccontr)
    assume ne: "sg \<noteq> sg'"
    show False
    proof (cases "sg = []")
      case True
      with ne u'(1) have "sg' = ''-''" by simp
      with True eq have "ds @ CHR ''-'' # v = CHR ''-'' # ds' @ CHR ''-'' # v'" by simp
      then have "hd (ds @ CHR ''-'' # v) = CHR ''-''" by simp
      with u(2) hd1 show False by simp
    next
      case False
      with u(1) have sg: "sg = ''-''" by simp
      with ne u'(1) have "sg' = []" by auto
      with sg eq have "ds' @ CHR ''-'' # v' = CHR ''-'' # ds @ CHR ''-'' # v" by simp
      then have "hd (ds' @ CHR ''-'' # v') = CHR ''-''" by simp
      with u'(2) hd2 show False by simp
    qed
  qed
  with eq have "ds @ CHR ''-'' # v = ds' @ CHR ''-'' # v'" by simp
  from split_at_first [OF u(3) u'(3) this] same show ?thesis by simp
qed

lemma cellKey_inj: "cellKey a b = cellKey c d \<longleftrightarrow> a = c \<and> b = d"
proof
  assume eq: "cellKey a b = cellKey c d"
  obtain sg ds where a: "numberToString a = sg @ ds" "sg = [] \<or> sg = ''-''" "ds \<noteq> []"
      "CHR ''-'' \<notin> set ds"
    using numberToString_shape [of a] by blast
  obtain sg' ds' where c: "numberToString c = sg' @ ds'" "sg' = [] \<or> sg' = ''-''" "ds' \<noteq> []"
      "CHR ''-'' \<notin> set ds'"
    using numberToString_shape [of c] by blast
  from eq have "(sg @ ds) @ CHR ''-'' # numberToString b = (sg' @ ds') @ CHR ''-'' # numberToString d"
    by (simp add: cellKey_def a(1) c(1))
  from signed_split [OF a(2,3,4) c(2,3,4) this]
  have "numberToString a = numberToString c" and "numberToString b = numberToString d"
    by (simp_all add: a(1) c(1))
  then show "a = c \<and> b = d"
    by (simp add: numberToString_inj)
next
  assume "a = c \<and> b = d"
  then show "cellKey a b = cellKey c d" by simp
qed

subsection \<open>What the loop of \<open>spawnFood\<close> returns\<close>

lemma key_occupied: "cellKey a b \<in> keys sn \<longleftrightarrow> \<lparr>x = a, y = b\<rparr> \<in> set sn"
proof
  assume "cellKey a b \<in> keys sn"
  then obtain p where p: "p \<in> set sn" "cellKey a b = cellKey (x p) (y p)"
    by (auto simp: keys_def)
  from p(2) have "a = x p" "b = y p" by (simp_all add: cellKey_inj)
  then have "p = \<lparr>x = a, y = b\<rparr>" by simp
  with p(1) show "\<lparr>x = a, y = b\<rparr> \<in> set sn" by simp
next
  assume "\<lparr>x = a, y = b\<rparr> \<in> set sn"
  then have "cellKey (x \<lparr>x = a, y = b\<rparr>) (y \<lparr>x = a, y = b\<rparr>) \<in> keys sn"
    unfolding keys_def by (simp only: set_map image_eqI)
  then show "cellKey a b \<in> keys sn" by simp
qed

lemma sample_advance: "sample bd (advance 2 r) j = sample bd r (Suc j)"
  by (simp add: sample_def advance_def)

lemma advance_advance: "advance a (advance b r) = advance (a + b) r"
  by (simp add: advance_def add.assoc)

lemma loop_step_hit:
  assumes "attempt < 500" and "sample bd r 0 \<notin> set sn"
  shows "spawnFood_loop (keys sn) bd attempt r = (sample bd r 0, advance 2 r)"
proof -
  have "cellKey (randomInt (cols bd) (r 0)) (randomInt (rows bd) (r 1)) \<notin> keys sn"
    using assms(2) key_occupied [of "randomInt (cols bd) (r 0)" "randomInt (rows bd) (r 1)" sn]
    by (simp add: sample_def)
  with assms(1) show ?thesis
    by (subst spawnFood_loop.simps) (simp add: sample_def Let_def)
qed

lemma loop_step_miss:
  assumes "attempt < 500" and "sample bd r 0 \<in> set sn"
  shows "spawnFood_loop (keys sn) bd attempt r = spawnFood_loop (keys sn) bd (Suc attempt) (advance 2 r)"
proof -
  have "cellKey (randomInt (cols bd) (r 0)) (randomInt (rows bd) (r 1)) \<in> keys sn"
    using assms(2) key_occupied [of "randomInt (cols bd) (r 0)" "randomInt (rows bd) (r 1)" sn]
    by (simp add: sample_def)
  with assms(1) show ?thesis
    by (subst spawnFood_loop.simps) (simp add: Let_def)
qed

lemma loop_done: "\<not> attempt < 500 \<Longrightarrow> spawnFood_loop occ bd attempt r = (\<lparr>x = 0, y = 0\<rparr>, r)"
  by (subst spawnFood_loop.simps) simp

lemma loop_hit:
  "attempt + k < 500 \<Longrightarrow> (\<forall>j<k. sample bd r j \<in> set sn) \<Longrightarrow> sample bd r k \<notin> set sn \<Longrightarrow>
   spawnFood_loop (keys sn) bd attempt r = (sample bd r k, advance (2 * k + 2) r)"
proof (induction k arbitrary: attempt r)
  case 0
  then show ?case using loop_step_hit [of attempt bd r sn] by (simp add: numeral_2_eq_2)
next
  case (Suc k)
  from Suc.prems have a: "attempt < 500" and m: "sample bd r 0 \<in> set sn" by auto
  have "spawnFood_loop (keys sn) bd (Suc attempt) (advance 2 r) =
        (sample bd (advance 2 r) k, advance (2 * k + 2) (advance 2 r))"
  proof (rule Suc.IH)
    show "Suc attempt + k < 500" using Suc.prems(1) by simp
    show "\<forall>j<k. sample bd (advance 2 r) j \<in> set sn"
      using Suc.prems(2) by (simp add: sample_advance)
    show "sample bd (advance 2 r) k \<notin> set sn"
      using Suc.prems(3) by (simp add: sample_advance)
  qed
  then show ?case
    using loop_step_miss [OF a m] by (simp add: sample_advance advance_advance)
qed

lemma loop_miss:
  "attempt + n = 500 \<Longrightarrow> (\<forall>j<n. sample bd r j \<in> set sn) \<Longrightarrow>
   spawnFood_loop (keys sn) bd attempt r = (\<lparr>x = 0, y = 0\<rparr>, advance (2 * n) r)"
proof (induction n arbitrary: attempt r)
  case 0
  then show ?case using loop_done [of attempt "keys sn" bd r] by (simp add: advance_def)
next
  case (Suc n)
  from Suc.prems have a: "attempt < 500" and m: "sample bd r 0 \<in> set sn" by auto
  have "spawnFood_loop (keys sn) bd (Suc attempt) (advance 2 r) =
        (\<lparr>x = 0, y = 0\<rparr>, advance (2 * n) (advance 2 r))"
  proof (rule Suc.IH)
    show "Suc attempt + n = 500" using Suc.prems(1) by simp
    show "\<forall>j<n. sample bd (advance 2 r) j \<in> set sn"
      using Suc.prems(2) by (simp add: sample_advance)
  qed
  then show ?case
    using loop_step_miss [OF a m] by (simp add: advance_advance)
qed

lemma spawnFood_keys: "spawnFood sn bd r = spawnFood_loop (keys sn) bd 0 r"
  by (simp add: spawnFood_def keys_def)

lemma spawnFood_hit:
  "k < 500 \<Longrightarrow> (\<forall>j<k. sample bd r j \<in> set sn) \<Longrightarrow> sample bd r k \<notin> set sn \<Longrightarrow>
   spawnFood sn bd r = (sample bd r k, advance (2 * k + 2) r)"
  using loop_hit [of 0 k bd r sn] by (simp add: spawnFood_keys)

lemma spawnFood_miss:
  "(\<forall>j<500. sample bd r j \<in> set sn) \<Longrightarrow> spawnFood sn bd r = (\<lparr>x = 0, y = 0\<rparr>, advance 1000 r)"
  using loop_miss [of 0 500 bd r sn] by (simp add: spawnFood_keys)

lemma spawnFood_cases:
  "(\<exists>k<500. (\<forall>j<k. sample bd r j \<in> set sn) \<and> sample bd r k \<notin> set sn \<and>
       spawnFood sn bd r = (sample bd r k, advance (2 * k + 2) r)) \<or>
   ((\<forall>j<500. sample bd r j \<in> set sn) \<and> spawnFood sn bd r = (\<lparr>x = 0, y = 0\<rparr>, advance 1000 r))"
proof (cases "\<exists>k<500. sample bd r k \<notin> set sn")
  case True
  define k where "k = (LEAST k. k < 500 \<and> sample bd r k \<notin> set sn)"
  from True have k: "k < 500 \<and> sample bd r k \<notin> set sn"
    unfolding k_def by (rule LeastI_ex)
  have least: "\<forall>j<k. sample bd r j \<in> set sn"
  proof (intro allI impI)
    fix j assume "j < k"
    then have "\<not> (j < 500 \<and> sample bd r j \<notin> set sn)"
      unfolding k_def by (rule not_less_Least)
    moreover from \<open>j < k\<close> k have "j < 500" by simp
    ultimately show "sample bd r j \<in> set sn" by simp
  qed
  from k least spawnFood_hit [of k bd r sn] show ?thesis by blast
next
  case False
  then have "\<forall>j<500. sample bd r j \<in> set sn" by simp
  with spawnFood_miss [of bd r sn] show ?thesis by blast
qed

subsection \<open>The double product and the range of \<open>randomInt\<close>\<close>

lemma bits_zero: "bits 0 = 0"
  by (simp add: bits.simps)

lemma bits_pos: "0 < n \<Longrightarrow> bits n = Suc (bits (n div 2))"
  by (subst bits.simps) simp

lemma bits_bounds: "0 < n \<Longrightarrow> 2 ^ (bits n - 1) \<le> n \<and> n < 2 ^ bits n"
proof (induction n rule: bits.induct)
  case (1 n)
  show ?case
  proof (cases "n div 2 = 0")
    case True
    with 1(2) have "n = 1" by (simp add: div_eq_0_iff) 
    then show ?thesis by (simp add: bits_pos bits_zero)
  next
    case False
    then have p: "0 < n div 2" by simp
    from 1(1) [OF _ p] 1(2) have ih: "2 ^ (bits (n div 2) - 1) \<le> n div 2 \<and> n div 2 < 2 ^ bits (n div 2)"
      by simp
    have b: "bits n = Suc (bits (n div 2))" using 1(2) by (rule bits_pos)
    have bp: "0 < bits (n div 2)" using p by (simp add: bits_pos)
    from ih have "2 * 2 ^ (bits (n div 2) - 1) \<le> n" by linarith
    moreover have "2 * 2 ^ (bits (n div 2) - 1) = (2::nat) ^ bits (n div 2)"
      using bp by (metis Suc_pred' power_Suc)
    moreover from ih have "n < 2 * 2 ^ bits (n div 2)" by linarith
    ultimately show ?thesis by (simp add: b)
  qed
qed

lemma bits_le: "n < 2 ^ k \<Longrightarrow> bits n \<le> k"
proof (cases "n = 0")
  case True
  then show ?thesis by (simp add: bits_zero)
next
  case False
  assume "n < 2 ^ k"
  from False have "2 ^ (bits n - 1) \<le> n" using bits_bounds [of n] by simp
  with \<open>n < 2 ^ k\<close> have "(2::nat) ^ (bits n - 1) < 2 ^ k" by linarith
  then have "bits n - 1 < k" by simp
  then show ?thesis by linarith
qed


lemma bits_eq: "0 < k \<Longrightarrow> 2 ^ (k - 1) \<le> n \<Longrightarrow> n < 2 ^ k \<Longrightarrow> bits n = k"
proof -
  assume k: "0 < k" and lo: "2 ^ (k - 1) \<le> n" and hi: "n < 2 ^ k"
  from lo have pos: "0 < n" by (metis less_le_trans zero_less_numeral zero_less_power)
  from hi have a: "bits n \<le> k" by (rule bits_le)
  from pos have "n < 2 ^ bits n" using bits_bounds [of n] by simp
  with lo have "(2::nat) ^ (k - 1) < 2 ^ bits n" by linarith
  then have "k - 1 < bits n" by simp
  with a k show ?thesis by linarith
qed

lemma roundTo53_small: "bits n \<le> 53 \<Longrightarrow> roundTo53 n = n"
  by (simp add: roundTo53_def)

lemma roundTo53_exact: "n < 2 ^ 53 \<Longrightarrow> roundTo53 n = n"
  using bits_le [of n 53] by (simp add: roundTo53_small)

lemma roundTo53_big:
  assumes "53 < bits n"
  defines "sh \<equiv> bits n - 53"
  shows "roundTo53 n \<le> n + 2 ^ (sh - 1)"
    and "n \<le> roundTo53 n + 2 ^ (sh - 1)"
    and "(n div 2 ^ sh) * 2 ^ sh \<le> roundTo53 n"
    and "roundTo53 n \<le> (n div 2 ^ sh + 1) * 2 ^ sh"
    and "2 ^ (sh - 1) * 2 ^ 53 \<le> n"
proof -
  define P :: nat where "P = 2 ^ sh"
  define half :: nat where "half = 2 ^ (sh - 1)"
  define q where "q = n div P"
  define rm where "rm = n mod P"
  have sh: "0 < sh" using assms(1) by (simp add: sh_def)
  have P: "P = half + half"
    unfolding P_def half_def using sh by (cases sh) simp_all
  have n: "n = q * P + rm"
    unfolding q_def rm_def by (rule div_mult_mod_eq [symmetric])
  have rm: "rm < P"
    unfolding rm_def P_def by simp
  have R: "roundTo53 n = (if half < rm \<or> (rm = half \<and> odd q) then q + 1 else q) * P"
    using assms(1) by (simp add: roundTo53_def Let_def sh_def P_def half_def q_def rm_def)
  have up: "roundTo53 n \<le> n + half"
  proof (cases "half < rm \<or> (rm = half \<and> odd q)")
    case True
    then have h: "half \<le> rm" by auto
    from True R have "roundTo53 n = q * P + P" by auto
    with P h n show ?thesis by linarith
  next
    case False
    with R have "roundTo53 n = q * P" by auto
    with n show ?thesis by linarith
  qed
  have down: "n \<le> roundTo53 n + half"
  proof (cases "half < rm \<or> (rm = half \<and> odd q)")
    case True
    with R have "roundTo53 n = q * P + P" by auto
    with rm n show ?thesis by linarith
  next
    case False
    then have h: "rm \<le> half" by auto
    from False R have "roundTo53 n = q * P" by auto
    with h n show ?thesis by linarith
  qed
  have lo: "q * P \<le> roundTo53 n" by (auto simp: R)
  have hi: "roundTo53 n \<le> (q + 1) * P" by (auto simp: R)
  have pos: "0 < n" using assms(1) by (cases "n = 0") (simp_all add: bits_zero)
  have "bits n - 1 = (sh - 1) + 53" using assms(1) by (simp add: sh_def)
  moreover have "2 ^ (bits n - 1) \<le> n" using pos bits_bounds [of n] by simp
  ultimately have big: "half * 2 ^ 53 \<le> n" by (simp add: power_add half_def)
  show "roundTo53 n \<le> n + 2 ^ (sh - 1)" using up by (simp add: half_def)
  show "n \<le> roundTo53 n + 2 ^ (sh - 1)" using down by (simp add: half_def)
  show "(n div 2 ^ sh) * 2 ^ sh \<le> roundTo53 n" using lo by (simp add: q_def P_def)
  show "roundTo53 n \<le> (n div 2 ^ sh + 1) * 2 ^ sh" using hi by (simp add: q_def P_def)
  show "2 ^ (sh - 1) * 2 ^ 53 \<le> n" using big by (simp add: half_def)
qed

lemma roundTo53_below:
  assumes "a < 2 ^ 53" and "a < 2 ^ e" and "0 < b"
  shows "roundTo53 (a * b) < b * 2 ^ e"
proof (cases "bits (a * b) \<le> 53")
  case True
  then have "roundTo53 (a * b) = a * b" by (rule roundTo53_small)
  also have "\<dots> < 2 ^ e * b" using assms(2,3) by simp
  finally show ?thesis by (simp add: mult.commute)
next
  case False
  then have big: "53 < bits (a * b)" by simp
  let ?half = "(2::nat) ^ (bits (a * b) - 53 - 1)"
  from roundTo53_big(5) [OF big] have "?half * 2 ^ 53 \<le> a * b" .
  also have "\<dots> < 2 ^ 53 * b" using assms(1,3) by simp
  finally have "?half * 2 ^ 53 < b * 2 ^ 53" by (simp add: mult.commute)
  then have h: "?half < b" by simp
  from roundTo53_big(1) [OF big] have "roundTo53 (a * b) \<le> a * b + ?half" .
  also have "\<dots> < a * b + b" using h by simp
  also have "\<dots> = (a + 1) * b" by simp
  also have "\<dots> \<le> 2 ^ e * b" using assms(2) by (intro mult_le_mono1) simp
  finally show ?thesis by (simp add: mult.commute)
qed

lemma randomInt_range:
  assumes "unitDouble u" and "0 < m"
  shows "0 \<le> randomInt m u \<and> randomInt m u < m"
proof -
  let ?R = "roundTo53 (mant u * nat m)"
  have r: "randomInt m u = int (?R div 2 ^ expo u)"
    using assms(2) by (simp add: randomInt_def)
  have "?R < nat m * 2 ^ expo u"
    using assms by (intro roundTo53_below) (simp_all add: unitDouble_def)
  then have "?R div 2 ^ expo u < nat m"
    by (simp add: div_less_iff_less_mult)
  then have "int (?R div 2 ^ expo u) < m"
    using assms(2) by linarith
  then show ?thesis by (simp add: r)
qed

lemma roundTo53_bracket:
  assumes "n < 2 ^ (e + 53)"
  shows "n div 2 ^ e \<le> roundTo53 n div 2 ^ e \<and> roundTo53 n div 2 ^ e \<le> n div 2 ^ e + 1"
proof (cases "bits n \<le> 53")
  case True
  then show ?thesis by (simp add: roundTo53_small)
next
  case False
  then have big: "53 < bits n" by simp
  define sh where "sh = bits n - 53"
  define P :: nat where "P = 2 ^ sh"
  define K where "K = n div 2 ^ e"
  have "bits n \<le> e + 53" using assms by (rule bits_le)
  then have she: "sh \<le> e" by (simp add: sh_def)
  then have E: "(2::nat) ^ e = 2 ^ (e - sh) * P"
    unfolding P_def by (simp add: power_add [symmetric])
  have Ppos: "0 < P" by (simp add: P_def)
  have lo: "(n div P) * P \<le> roundTo53 n"
    using roundTo53_big(3) [OF big] by (simp add: sh_def P_def)
  have hi: "roundTo53 n \<le> (n div P + 1) * P"
    using roundTo53_big(4) [OF big] by (simp add: sh_def P_def)
  have "K * 2 ^ e \<le> n"
    unfolding K_def by simp
  then have "(K * 2 ^ (e - sh)) * P \<le> n" by (simp add: E mult.assoc)
  then have "K * 2 ^ (e - sh) \<le> n div P"
    using Ppos by (simp add: less_eq_div_iff_mult_less_eq)
  then have "(K * 2 ^ (e - sh)) * P \<le> (n div P) * P" by (rule mult_le_mono1)
  then have "(K * 2 ^ (e - sh)) * P \<le> roundTo53 n" using lo by (rule order_trans)
  moreover have "K * 2 ^ e = (K * 2 ^ (e - sh)) * P" by (simp only: E mult.assoc)
  ultimately have "K * 2 ^ e \<le> roundTo53 n" by (simp only:)
  then have a: "K \<le> roundTo53 n div 2 ^ e"
    by (simp add: less_eq_div_iff_mult_less_eq)
  have "n < (K + 1) * 2 ^ e"
    unfolding K_def using dividend_less_div_times [of "2 ^ e" n] by (simp add: mult.commute)
  moreover have "(K + 1) * 2 ^ e = ((K + 1) * 2 ^ (e - sh)) * P" by (simp only: E mult.assoc)
  ultimately have "n < ((K + 1) * 2 ^ (e - sh)) * P" by (simp only:)
  then have "n div P < (K + 1) * 2 ^ (e - sh)"
    using Ppos by (simp add: div_less_iff_less_mult)
  then have "n div P + 1 \<le> (K + 1) * 2 ^ (e - sh)" by simp
  then have "(n div P + 1) * P \<le> ((K + 1) * 2 ^ (e - sh)) * P" by (rule mult_le_mono1)
  with hi have "roundTo53 n \<le> ((K + 1) * 2 ^ (e - sh)) * P" by (rule order_trans)
  moreover have "(K + 1) * 2 ^ e = ((K + 1) * 2 ^ (e - sh)) * P" by (simp only: E mult.assoc)
  ultimately have "roundTo53 n \<le> (K + 1) * 2 ^ e" by (simp only:)
  then have "roundTo53 n div 2 ^ e \<le> ((K + 1) * 2 ^ e) div 2 ^ e" by (rule div_le_mono)
  then have b: "roundTo53 n div 2 ^ e \<le> K + 1" by simp
  from a b show ?thesis by (simp add: K_def)
qed

lemma randomInt_bracket:
  assumes "unitDouble u" and "0 < m" and "m \<le> 2 ^ 53"
  shows "int (mant u * nat m div 2 ^ expo u) \<le> randomInt m u \<and>
         randomInt m u \<le> int (mant u * nat m div 2 ^ expo u) + 1"
proof -
  have "mant u * nat m < 2 ^ expo u * 2 ^ 53"
    using assms by (intro mult_less_le_imp_less) (simp_all add: unitDouble_def nat_le_iff)
  then have "mant u * nat m < 2 ^ (expo u + 53)" by (simp add: power_add)
  from roundTo53_bracket [OF this] assms(2) show ?thesis
    by (simp add: randomInt_def)
qed

lemma randomInt_exact:
  "0 \<le> m \<Longrightarrow> mant u * nat m < 2 ^ 53 \<Longrightarrow> randomInt m u = int (mant u * nat m div 2 ^ expo u)"
  by (simp add: randomInt_def roundTo53_exact)

lemma randomInt_rounds_up:
  "randomInt 12 (dyadic 3752999689475413 52) = 10 \<and>
   (3752999689475413 * 12) div (2 ^ 52 :: nat) = 9"
proof -
  have b: "bits 45035996273704956 = 56"
    by (rule bits_eq) simp_all
  have "roundTo53 45035996273704956 = 45035996273704960"
    by (simp add: roundTo53_def b Let_def)
  then show ?thesis by (simp add: randomInt_def dyadic_def)
qed

lemma sample_in_grid:
  assumes "unit_draws r" "0 < cols bd" "0 < rows bd"
  shows "0 \<le> x (sample bd r k) \<and> x (sample bd r k) < cols bd \<and>
         0 \<le> y (sample bd r k) \<and> y (sample bd r k) < rows bd"
  using assms randomInt_range [of "r (2 * k)" "cols bd"] randomInt_range [of "r (2 * k + 1)" "rows bd"]
  by (simp add: sample_def unit_draws_def)

lemma sample_exact:
  "0 \<le> cols bd \<Longrightarrow> 0 \<le> rows bd \<Longrightarrow> a * nat (cols bd) < 2 ^ 53 \<Longrightarrow> a * nat (rows bd) < 2 ^ 53 \<Longrightarrow>
   sample bd (always (dyadic a e)) k =
     \<lparr>x = int (a * nat (cols bd) div 2 ^ e), y = int (a * nat (rows bd) div 2 ^ e)\<rparr>"
  by (simp add: sample_def always_def dyadic_def randomInt_exact)

subsection \<open>The exits of \<open>tick\<close>\<close>

lemma point_eq_iff: "(p::Point) = q \<longleftrightarrow> x p = x q \<and> y p = y q"
  by (cases p, cases q) simp

lemma collides_iff:
  "list_ex (\<lambda>segment. x segment = x (n::Point) \<and> y segment = y n) sn \<longleftrightarrow> n \<in> set sn"
proof -
  have "(\<lambda>segment::Point. x segment = x n \<and> y segment = y n) = (\<lambda>segment. segment = n)"
    by (simp add: point_eq_iff fun_eq_iff)
  then show ?thesis by (simp add: list_ex_iff)
qed

lemma tick_unsized:
  "cols (board s) = 0 \<or> rows (board s) = 0 \<Longrightarrow> tick s = (Inr None, s)"
  by (simp add: tick_def)

lemma tick_throws:
  "cols (board s) \<noteq> 0 \<Longrightarrow> rows (board s) \<noteq> 0 \<Longrightarrow>
   snake s = [] \<or> lookupVector (pendingDirection s) = None \<Longrightarrow>
   tick s = (Inl TypeError, s\<lparr>direction := pendingDirection s\<rparr>)"
  by (auto simp: tick_def Let_def split: list.splits)

lemma lookupVector_None: "lookupVector v = None \<longleftrightarrow> (\<forall>d. v \<noteq> Dir d)"
  by (cases v) simp_all

lemma tick_cons:
  assumes "cols (board s) \<noteq> 0" "rows (board s) \<noteq> 0" "snake s = h # body"
    and "pendingDirection s = Dir d"
  shows "tick s =
     (if \<not> inGrid (board s) (moved h d) \<or> moved h d \<in> set (snake s)
      then (Inr (Some Died), s\<lparr>direction := Dir d, status := Gameover\<rparr>)
      else if moved h d = food s
      then (Inr (Some Ate),
            s\<lparr>direction := Dir d,
              snake := moved h d # snake s,
              score := score s + 1,
              highScore := max (highScore s) (score s + 1),
              food := fst (spawnFood (moved h d # snake s) (board s) (random s)),
              random := snd (spawnFood (moved h d # snake s) (board s) (random s))\<rparr>)
      else (Inr (Some Moved),
            s\<lparr>direction := Dir d, snake := moved h d # butlast (snake s)\<rparr>))"
proof -
  define n where "n = moved h d"
  have n: "\<lparr>x = x h + x (directionVectors d), y = y h + y (directionVectors d)\<rparr> = n"
    by (simp add: n_def moved_def)
  have c1: "(x n < 0 \<or> y n < 0 \<or> cols (board s) \<le> x n \<or> rows (board s) \<le> y n \<or>
             list_ex (\<lambda>segment. x segment = x n \<and> y segment = y n) (h # body)) =
            (\<not> inGrid (board s) n \<or> n \<in> set (h # body))"
    by (auto simp only: collides_iff inGrid_def)
  have c2: "(x n = x (food s) \<and> y n = y (food s)) = (n = food s)"
    by (simp add: point_eq_iff)
  have "tick s =
     (if \<not> inGrid (board s) n \<or> n \<in> set (h # body)
      then (Inr (Some Died), s\<lparr>direction := Dir d, status := Gameover\<rparr>)
      else if n = food s
      then (Inr (Some Ate),
            s\<lparr>direction := Dir d,
              snake := n # h # body,
              score := score s + 1,
              highScore := max (highScore s) (score s + 1),
              food := fst (spawnFood (n # h # body) (board s) (random s)),
              random := snd (spawnFood (n # h # body) (board s) (random s))\<rparr>)
      else (Inr (Some Moved),
            s\<lparr>direction := Dir d, snake := n # butlast (h # body)\<rparr>))"
    unfolding tick_def Let_def assms(3,4) list.case lookupVector.simps option.case n
    using assms(1,2) by (simp only: c1) (simp add: c2 endGame_def split_beta)
  then show ?thesis
    by (simp only: n_def assms(3))
qed

text \<open>How a tick on a sized board ends, by the snake and the pending direction.\<close>

lemma tick_sized_cases:
  assumes "cols (board s) \<noteq> 0" "rows (board s) \<noteq> 0"
  obtains (throws) "snake s = [] \<or> lookupVector (pendingDirection s) = None"
      "tick s = (Inl TypeError, s\<lparr>direction := pendingDirection s\<rparr>)"
    | (steps) h body d where "snake s = h # body" "pendingDirection s = Dir d"
proof (cases "snake s")
  case Nil
  then have "snake s = [] \<or> lookupVector (pendingDirection s) = None" by simp
  with assms throws tick_throws show ?thesis by blast
next
  case (Cons h body)
  show ?thesis
  proof (cases "pendingDirection s")
    case (Dir d)
    with Cons steps show ?thesis by blast
  next
    case ObjectConstructor
    then have "snake s = [] \<or> lookupVector (pendingDirection s) = None" by simp
    with assms throws tick_throws show ?thesis by blast
  next
    case ObjectPrototype
    then have "snake s = [] \<or> lookupVector (pendingDirection s) = None" by simp
    with assms throws tick_throws show ?thesis by blast
  qed
qed

lemma tick_Died_D:
  assumes "fst (tick s) = Inr (Some Died)"
  shows "cols (board s) \<noteq> 0 \<and> rows (board s) \<noteq> 0 \<and>
         (\<exists>h body d. snake s = h # body \<and> pendingDirection s = Dir d)"
proof -
  have sized: "cols (board s) \<noteq> 0" "rows (board s) \<noteq> 0"
    using assms tick_unsized [of s] by auto
  from sized show ?thesis
  proof (cases rule: tick_sized_cases)
    case throws
    with assms show ?thesis by simp
  next
    case (steps h body d)
    with sized show ?thesis by blast
  qed
qed

subsection \<open>Collisions\<close>

text \<open>
  Claim C1. In a tick on a sized board with a snake \<open>h # body\<close>, the exit is \<open>Died\<close>
  exactly when the pending value (which the tick commits) is a direction \<open>d\<close> and the cell
  one step from the head in direction \<open>d\<close> is off the board or is a cell of the snake as it
  is before the move. In a running game that is exactly when the status becomes
  \<open>gameover\<close>. The tail cell counts: stepping on the last segment of a snake of two or more
  segments is fatal. Every running game the page reaches has a sized board and a snake
  (\<open>running_game_sized\<close> below).
\<close>
theorem tick_died_iff:
  assumes "cols (board s) \<noteq> 0" and "rows (board s) \<noteq> 0" and "snake s = h # body"
  shows "(fst (tick s) = Inr (Some Died) \<longleftrightarrow>
            (\<exists>d. pendingDirection s = Dir d \<and>
                 (\<not> inGrid (board s) (moved h d) \<or> moved h d \<in> set (snake s)))) \<and>
         (status s = Running \<longrightarrow>
            (status (snd (tick s)) = Gameover \<longleftrightarrow> fst (tick s) = Inr (Some Died))) \<and>
         (\<forall>d. pendingDirection s = Dir d \<and> body \<noteq> [] \<and> moved h d = last (snake s) \<longrightarrow>
            fst (tick s) = Inr (Some Died)) \<and>
         direction (snd (tick s)) = pendingDirection s"
proof (cases "lookupVector (pendingDirection s) = None")
  case True
  then have t: "tick s = (Inl TypeError, s\<lparr>direction := pendingDirection s\<rparr>)"
    using assms(1,2) by (simp add: tick_throws)
  from True have "\<forall>d. pendingDirection s \<noteq> Dir d" by (simp add: lookupVector_None)
  then show ?thesis by (simp add: t)
next
  case False
  then obtain d where d: "pendingDirection s = Dir d"
    by (auto simp: lookupVector_None)
  note t = tick_cons [OF assms d]
  have a: "fst (tick s) = Inr (Some Died) \<longleftrightarrow>
            \<not> inGrid (board s) (moved h d) \<or> moved h d \<in> set (snake s)"
    by (simp add: t)
  have b: "status s = Running \<longrightarrow>
            (status (snd (tick s)) = Gameover \<longleftrightarrow> fst (tick s) = Inr (Some Died))"
    by (simp add: t)
  have "body \<noteq> [] \<Longrightarrow> last (snake s) \<in> set (snake s)"
    using assms(3) by simp
  with a have c: "body \<noteq> [] \<and> moved h d = last (snake s) \<longrightarrow>
            fst (tick s) = Inr (Some Died)"
    by auto
  have e: "direction (snd (tick s)) = pendingDirection s"
    by (simp add: t d)
  from a b c e d show ?thesis by simp
qed

theorem tick_died_iff_witness:
  "fst (tick (game [\<lparr>x = 0, y = 6\<rparr>, \<lparr>x = 1, y = 6\<rparr>, \<lparr>x = 2, y = 6\<rparr>] \<lparr>x = 9, y = 9\<rparr> Left Left))
     = Inr (Some Died) \<and>
   fst (tick (game [\<lparr>x = 1, y = 1\<rparr>, \<lparr>x = 1, y = 0\<rparr>, \<lparr>x = 0, y = 0\<rparr>, \<lparr>x = 0, y = 1\<rparr>]
                \<lparr>x = 9, y = 9\<rparr> Down Left)) = Inr (Some Died) \<and>
   fst (tick (game [\<lparr>x = 6, y = 6\<rparr>, \<lparr>x = 5, y = 6\<rparr>, \<lparr>x = 4, y = 6\<rparr>] \<lparr>x = 9, y = 9\<rparr> Right Right))
     \<noteq> Inr (Some Died)"
  using
    tick_died_iff [of "game [\<lparr>x = 0, y = 6\<rparr>, \<lparr>x = 1, y = 6\<rparr>, \<lparr>x = 2, y = 6\<rparr>] \<lparr>x = 9, y = 9\<rparr> Left Left"
      "\<lparr>x = 0, y = 6\<rparr>" "[\<lparr>x = 1, y = 6\<rparr>, \<lparr>x = 2, y = 6\<rparr>]"]
    tick_died_iff [of "game [\<lparr>x = 1, y = 1\<rparr>, \<lparr>x = 1, y = 0\<rparr>, \<lparr>x = 0, y = 0\<rparr>, \<lparr>x = 0, y = 1\<rparr>]
                \<lparr>x = 9, y = 9\<rparr> Down Left"
      "\<lparr>x = 1, y = 1\<rparr>" "[\<lparr>x = 1, y = 0\<rparr>, \<lparr>x = 0, y = 0\<rparr>, \<lparr>x = 0, y = 1\<rparr>]"]
    tick_died_iff [of "game [\<lparr>x = 6, y = 6\<rparr>, \<lparr>x = 5, y = 6\<rparr>, \<lparr>x = 4, y = 6\<rparr>] \<lparr>x = 9, y = 9\<rparr> Right Right"
      "\<lparr>x = 6, y = 6\<rparr>" "[\<lparr>x = 5, y = 6\<rparr>, \<lparr>x = 4, y = 6\<rparr>]"]
  by (simp add: game_def boardOf_def inGrid_def moved_def)

subsection \<open>Moving and growing\<close>

text \<open>
  Claim C2. A tick on a snake \<open>h # body\<close> that exits with an outcome other than
  \<open>Died\<close> had a direction pending, and it puts the new head one step from \<open>h\<close> in that
  direction. When that cell
  is the food, the outcome is \<open>Ate\<close>, the old snake follows the new head unshortened and
  the length grows by one; otherwise the outcome is \<open>Moved\<close>, the last segment is dropped
  and the length stays.
\<close>
theorem tick_moves_head:
  assumes "snake s = h # body" and "fst (tick s) = Inr (Some out)" and "out \<noteq> Died"
  shows "\<exists>d. pendingDirection s = Dir d \<and>
           hd (snake (snd (tick s))) = moved h d \<and>
           (moved h d = food s \<longrightarrow>
              out = Ate \<and>
              snake (snd (tick s)) = moved h d # snake s \<and>
              length (snake (snd (tick s))) = length (snake s) + 1) \<and>
           (moved h d \<noteq> food s \<longrightarrow>
              out = Moved \<and>
              snake (snd (tick s)) = moved h d # butlast (snake s) \<and>
              length (snake (snd (tick s))) = length (snake s))"
proof -
  have sized: "cols (board s) \<noteq> 0" "rows (board s) \<noteq> 0"
    using assms(2) tick_unsized [of s] by auto
  have "lookupVector (pendingDirection s) \<noteq> None"
  proof
    assume "lookupVector (pendingDirection s) = None"
    then have "tick s = (Inl TypeError, s\<lparr>direction := pendingDirection s\<rparr>)"
      using sized by (simp add: tick_throws)
    with assms(2) show False by simp
  qed
  then obtain d where d: "pendingDirection s = Dir d"
    by (auto simp: lookupVector_None)
  note t = tick_cons [OF sized assms(1) d]
  have "fst (tick s) = Inr (Some Died) \<longleftrightarrow>
          \<not> inGrid (board s) (moved h d) \<or> moved h d \<in> set (snake s)"
    by (simp add: t)
  with assms(2,3) have alive:
    "\<not> (\<not> inGrid (board s) (moved h d) \<or> moved h d \<in> set (snake s))"
    by simp
  have "fst (tick s) = Inr (Some (if moved h d = food s then Ate else Moved))"
    using alive by (auto simp: t)
  with assms(2) have out: "out = (if moved h d = food s then Ate else Moved)"
    by simp
  from alive out have
    "hd (snake (snd (tick s))) = moved h d \<and>
     (moved h d = food s \<longrightarrow>
        out = Ate \<and>
        snake (snd (tick s)) = moved h d # snake s \<and>
        length (snake (snd (tick s))) = length (snake s) + 1) \<and>
     (moved h d \<noteq> food s \<longrightarrow>
        out = Moved \<and>
        snake (snd (tick s)) = moved h d # butlast (snake s) \<and>
        length (snake (snd (tick s))) = length (snake s))"
    using assms(1) by (auto simp: t)
  with d show ?thesis by blast
qed

theorem tick_moves_head_witness:
  "fst (tick (game [\<lparr>x = 6, y = 6\<rparr>, \<lparr>x = 5, y = 6\<rparr>, \<lparr>x = 4, y = 6\<rparr>] \<lparr>x = 7, y = 6\<rparr> Right Right))
     = Inr (Some Ate) \<and>
   snake (snd (tick (game [\<lparr>x = 6, y = 6\<rparr>, \<lparr>x = 5, y = 6\<rparr>, \<lparr>x = 4, y = 6\<rparr>] \<lparr>x = 7, y = 6\<rparr> Right Right)))
     = [\<lparr>x = 7, y = 6\<rparr>, \<lparr>x = 6, y = 6\<rparr>, \<lparr>x = 5, y = 6\<rparr>, \<lparr>x = 4, y = 6\<rparr>] \<and>
   fst (tick (game [\<lparr>x = 6, y = 6\<rparr>, \<lparr>x = 5, y = 6\<rparr>, \<lparr>x = 4, y = 6\<rparr>] \<lparr>x = 9, y = 9\<rparr> Right Up))
     = Inr (Some Moved) \<and>
   snake (snd (tick (game [\<lparr>x = 6, y = 6\<rparr>, \<lparr>x = 5, y = 6\<rparr>, \<lparr>x = 4, y = 6\<rparr>] \<lparr>x = 9, y = 9\<rparr> Right Up)))
     = [\<lparr>x = 6, y = 5\<rparr>, \<lparr>x = 6, y = 6\<rparr>, \<lparr>x = 5, y = 6\<rparr>]"
proof -
  let ?sn = "[\<lparr>x = 6, y = 6\<rparr>, \<lparr>x = 5, y = 6\<rparr>, \<lparr>x = 4, y = 6\<rparr>]"
  let ?a = "game ?sn \<lparr>x = 7, y = 6\<rparr> Right Right"
  let ?m = "game ?sn \<lparr>x = 9, y = 9\<rparr> Right Up"
  have out_a: "fst (tick ?a) = Inr (Some Ate)"
    using tick_cons [of ?a "\<lparr>x = 6, y = 6\<rparr>" "[\<lparr>x = 5, y = 6\<rparr>, \<lparr>x = 4, y = 6\<rparr>]" Right]
    by (simp add: game_def boardOf_def inGrid_def moved_def)
  have out_m: "fst (tick ?m) = Inr (Some Moved)"
    using tick_cons [of ?m "\<lparr>x = 6, y = 6\<rparr>" "[\<lparr>x = 5, y = 6\<rparr>, \<lparr>x = 4, y = 6\<rparr>]" Up]
    by (simp add: game_def boardOf_def inGrid_def moved_def)
  have sa: "snake ?a = \<lparr>x = 6, y = 6\<rparr> # [\<lparr>x = 5, y = 6\<rparr>, \<lparr>x = 4, y = 6\<rparr>]"
    by (simp add: game_def)
  have sm: "snake ?m = \<lparr>x = 6, y = 6\<rparr> # [\<lparr>x = 5, y = 6\<rparr>, \<lparr>x = 4, y = 6\<rparr>]"
    by (simp add: game_def)
  have na: "Ate \<noteq> Died" and nm: "Moved \<noteq> Died" by simp_all
  show ?thesis
    using tick_moves_head [OF sa out_a na] tick_moves_head [OF sm out_m nm] out_a out_m
    by (simp add: game_def moved_def)
qed

subsection \<open>The direction is committed first\<close>

text \<open>
  Claim C10. After a tick on a sized board the current direction is the direction that
  was pending before it, whatever the exit. After a fatal tick the snake, the food and the
  score are what they were, and the current direction is the pending one that led into
  the collision.
\<close>
theorem tick_commits_direction:
  assumes "cols (board s) \<noteq> 0" and "rows (board s) \<noteq> 0"
  shows "direction (snd (tick s)) = pendingDirection s \<and>
         pendingDirection (snd (tick s)) = pendingDirection s \<and>
         (fst (tick s) = Inr (Some Died) \<longrightarrow>
            snake (snd (tick s)) = snake s \<and> food (snd (tick s)) = food s \<and>
            score (snd (tick s)) = score s)"
  using assms
proof (cases rule: tick_sized_cases)
  case throws
  then show ?thesis by simp
next
  case (steps h body d)
  show ?thesis by (simp add: tick_cons [OF assms steps] steps(2))
qed

theorem tick_commits_direction_witness:
  "fst (tick (game [\<lparr>x = 6, y = 0\<rparr>, \<lparr>x = 5, y = 0\<rparr>, \<lparr>x = 4, y = 0\<rparr>] \<lparr>x = 9, y = 9\<rparr> Right Up))
     = Inr (Some Died) \<and>
   direction (snd (tick (game [\<lparr>x = 6, y = 0\<rparr>, \<lparr>x = 5, y = 0\<rparr>, \<lparr>x = 4, y = 0\<rparr>] \<lparr>x = 9, y = 9\<rparr> Right Up)))
     = Dir Up \<and>
   snake (snd (tick (game [\<lparr>x = 6, y = 0\<rparr>, \<lparr>x = 5, y = 0\<rparr>, \<lparr>x = 4, y = 0\<rparr>] \<lparr>x = 9, y = 9\<rparr> Right Up)))
     = [\<lparr>x = 6, y = 0\<rparr>, \<lparr>x = 5, y = 0\<rparr>, \<lparr>x = 4, y = 0\<rparr>]"
proof -
  let ?g = "game [\<lparr>x = 6, y = 0\<rparr>, \<lparr>x = 5, y = 0\<rparr>, \<lparr>x = 4, y = 0\<rparr>] \<lparr>x = 9, y = 9\<rparr> Right Up"
  have died: "fst (tick ?g) = Inr (Some Died)"
    using tick_cons [of ?g "\<lparr>x = 6, y = 0\<rparr>" "[\<lparr>x = 5, y = 0\<rparr>, \<lparr>x = 4, y = 0\<rparr>]" Up]
    by (simp add: game_def boardOf_def inGrid_def moved_def)
  have sized: "cols (board ?g) \<noteq> 0" "rows (board ?g) \<noteq> 0"
    by (simp_all add: game_def boardOf_def)
  show ?thesis
    using tick_commits_direction [OF sized] died by (simp add: game_def)
qed

subsection \<open>The direction gate\<close>

lemma controls_Some:
  "controls k = Some c \<Longrightarrow> k \<noteq> '' '' \<and> k \<noteq> ''enter'' \<and> k \<noteq> ''r''"
  by (auto simp: controls_def split: if_splits option.splits)

lemma handleKey_direction:
  "controls (toLowerCase k) = Some c \<Longrightarrow> handleKey k s = requestDirection c s"
  using controls_Some [of "toLowerCase k" c] by (simp add: handleKey_def Let_def)

text \<open>
  Claim C3. With \<open>d\<close> the current direction, a request for direction \<open>c\<close> leaves the state
  as it is when \<open>c\<close> is the opposite of \<open>d\<close>, and otherwise changes the pending direction
  to \<open>c\<close> and nothing else. A key that \<open>controls\<close> finds is such a request, for the value
  found. The pending direction already queued plays no part in the decision: whatever it
  is, an admissible \<open>c\<close> replaces it. The last part is the comparison for any values of the
  two refs.
\<close>
theorem direction_gate:
  "(direction s = Dir d \<longrightarrow>
      requestDirection (Dir c) s =
        (if c = opposite d then s else s\<lparr>pendingDirection := Dir c\<rparr>)) \<and>
   (controls (toLowerCase k) = Some v \<longrightarrow> handleKey k s = requestDirection v s) \<and>
   (direction s = Dir d \<and> c \<noteq> opposite d \<longrightarrow>
      pendingDirection (requestDirection (Dir c) s) = Dir c) \<and>
   (direction s = Dir d \<longrightarrow>
      requestDirection (Dir c) (s\<lparr>pendingDirection := p\<rparr>) =
        (if c = opposite d then s\<lparr>pendingDirection := p\<rparr>
         else s\<lparr>pendingDirection := Dir c\<rparr>)) \<and>
   requestDirection v s =
     (if lookupOpposite (direction s) = Some v then s else s\<lparr>pendingDirection := v\<rparr>)"
proof -
  have g: "requestDirection v s =
     (if lookupOpposite (direction s) = Some v then s else s\<lparr>pendingDirection := v\<rparr>)" for v s
    by (simp add: requestDirection_def Let_def)
  have a: "direction s = Dir d \<longrightarrow>
      requestDirection (Dir c) s =
        (if c = opposite d then s else s\<lparr>pendingDirection := Dir c\<rparr>)"
    by (auto simp: g)
  have b: "controls (toLowerCase k) = Some v \<longrightarrow> handleKey k s = requestDirection v s"
    using handleKey_direction by blast
  have c: "direction s = Dir d \<and> c \<noteq> opposite d \<longrightarrow>
      pendingDirection (requestDirection (Dir c) s) = Dir c"
    by (auto simp: g)
  have e: "direction s = Dir d \<longrightarrow>
      requestDirection (Dir c) (s\<lparr>pendingDirection := p\<rparr>) =
        (if c = opposite d then s\<lparr>pendingDirection := p\<rparr>
         else s\<lparr>pendingDirection := Dir c\<rparr>)"
    by (auto simp: g)
  from a b c e g show ?thesis by blast
qed

theorem direction_gate_witness:
  "handleKey ''ArrowLeft'' (game [\<lparr>x = 6, y = 6\<rparr>, \<lparr>x = 5, y = 6\<rparr>, \<lparr>x = 4, y = 6\<rparr>] \<lparr>x = 7, y = 6\<rparr> Right Right)
     = game [\<lparr>x = 6, y = 6\<rparr>, \<lparr>x = 5, y = 6\<rparr>, \<lparr>x = 4, y = 6\<rparr>] \<lparr>x = 7, y = 6\<rparr> Right Right \<and>
   pendingDirection
     (handleKey ''s'' (game [\<lparr>x = 6, y = 6\<rparr>, \<lparr>x = 5, y = 6\<rparr>, \<lparr>x = 4, y = 6\<rparr>] \<lparr>x = 7, y = 6\<rparr> Right Up))
     = Dir Down"
proof -
  let ?sn = "[\<lparr>x = 6, y = 6\<rparr>, \<lparr>x = 5, y = 6\<rparr>, \<lparr>x = 4, y = 6\<rparr>]"
  let ?a = "game ?sn \<lparr>x = 7, y = 6\<rparr> Right Right"
  let ?b = "game ?sn \<lparr>x = 7, y = 6\<rparr> Right Up"
  have l: "controls (toLowerCase ''ArrowLeft'') = Some (Dir Left)"
    by code_simp
  have d: "controls (toLowerCase ''s'') = Some (Dir Down)"
    by code_simp
  have ca: "direction ?a = Dir Right" and cb: "direction ?b = Dir Right"
    by (simp_all add: game_def)
  from direction_gate [of ?a Right Left "''ArrowLeft''" "Dir Left" "Dir Right"] l ca
  have 1: "handleKey ''ArrowLeft'' ?a = ?a" by simp
  from direction_gate [of ?b Right Down "''s''" "Dir Down" "Dir Up"] d cb
  have 2: "pendingDirection (handleKey ''s'' ?b) = Dir Down" by simp
  from 1 2 show ?thesis by blast
qed

subsection \<open>Starting a run\<close>

lemma resetSnake_unsized:
  "cols (board s) = 0 \<or> rows (board s) = 0 \<Longrightarrow> resetSnake s = s"
  by (simp add: resetSnake_def)

lemma resetSnake_sized:
  "cols (board s) \<noteq> 0 \<Longrightarrow> rows (board s) \<noteq> 0 \<Longrightarrow>
   resetSnake s =
     s\<lparr>snake := initialSnake (board s), direction := Dir Right, pendingDirection := Dir Right,
       food := fst (spawnFood (initialSnake (board s)) (board s) (random s)),
       random := snd (spawnFood (initialSnake (board s)) (board s) (random s))\<rparr>"
  by (simp add: resetSnake_def Let_def split_beta initialSnake_def)

lemma resetSnake_keeps:
  "board (resetSnake s) = board s \<and> status (resetSnake s) = status s \<and>
   score (resetSnake s) = score s \<and> highScore (resetSnake s) = highScore s"
  by (cases "cols (board s) = 0 \<or> rows (board s) = 0")
     (auto simp: resetSnake_unsized resetSnake_sized)

subsection \<open>What the handlers keep, and the states the page reaches\<close>

lemma tick_scores:
  "(fst (tick s) = Inr (Some Ate) \<longrightarrow>
      score (snd (tick s)) = score s + 1 \<and>
      highScore (snd (tick s)) = max (highScore s) (score s + 1)) \<and>
   (fst (tick s) \<noteq> Inr (Some Ate) \<longrightarrow>
      score (snd (tick s)) = score s \<and> highScore (snd (tick s)) = highScore s)"
proof (cases "cols (board s) = 0 \<or> rows (board s) = 0")
  case True
  then show ?thesis by (simp add: tick_unsized)
next
  case False
  then have sized: "cols (board s) \<noteq> 0" "rows (board s) \<noteq> 0" by simp_all
  from sized show ?thesis
  proof (cases rule: tick_sized_cases)
    case throws
    then show ?thesis by simp
  next
    case (steps h body d)
    show ?thesis by (simp add: tick_cons [OF sized steps])
  qed
qed

lemma tick_keeps:
  "board (snd (tick s)) = board s \<and> pendingDirection (snd (tick s)) = pendingDirection s \<and>
   (status (snd (tick s)) = status s \<or> status (snd (tick s)) = Gameover)"
proof (cases "cols (board s) = 0 \<or> rows (board s) = 0")
  case True
  then show ?thesis by (simp add: tick_unsized)
next
  case False
  then have sized: "cols (board s) \<noteq> 0" "rows (board s) \<noteq> 0" by simp_all
  from sized show ?thesis
  proof (cases rule: tick_sized_cases)
    case throws
    then show ?thesis by simp
  next
    case (steps h body d)
    show ?thesis by (simp add: tick_cons [OF sized steps])
  qed
qed

lemma tick_snake_nonempty:
  "snake s \<noteq> [] \<Longrightarrow> snake (snd (tick s)) \<noteq> []"
proof (cases "cols (board s) = 0 \<or> rows (board s) = 0")
  case True
  assume "snake s \<noteq> []"
  with True show ?thesis by (simp add: tick_unsized)
next
  case False
  assume ne: "snake s \<noteq> []"
  from False have sized: "cols (board s) \<noteq> 0" "rows (board s) \<noteq> 0" by simp_all
  from sized show ?thesis
  proof (cases rule: tick_sized_cases)
    case throws
    with ne show ?thesis by simp
  next
    case (steps h body d)
    show ?thesis using steps(1) by (simp add: tick_cons [OF sized steps])
  qed
qed

lemma tick_returns:
  "snake s \<noteq> [] \<Longrightarrow> pendingDirection s = Dir d \<Longrightarrow> \<exists>out. fst (tick s) = Inr out"
proof (cases "cols (board s) = 0 \<or> rows (board s) = 0")
  case True
  then show ?thesis by (simp add: tick_unsized)
next
  case False
  assume ne: "snake s \<noteq> []" and d: "pendingDirection s = Dir d"
  from False have sized: "cols (board s) \<noteq> 0" "rows (board s) \<noteq> 0" by simp_all
  from ne obtain h body where c: "snake s = h # body" by (cases "snake s") auto
  show ?thesis by (simp add: tick_cons [OF sized c d])
qed

lemma startGame_keeps:
  "board (startGame s) = board s \<and> highScore (startGame s) = highScore s"
  by (simp add: startGame_def resetSnake_keeps)

lemma updateBoard_None: "updateBoard None d s = s"
  by (simp add: updateBoard_def)

lemma updateBoard_Some:
  "\<exists>bd. 12 \<le> cols bd \<and> 12 \<le> rows bd \<and>
        updateBoard (Some (bw, bh)) d s =
          (if status s = Ready then resetSnake (s\<lparr>board := bd\<rparr>) else s\<lparr>board := bd\<rparr>)"
proof -
  let ?cell = "clamp \<lfloor>min bw bh / 28\<rfloor> 14 26"
  let ?bd = "\<lparr>cols = max 12 \<lfloor>bw / of_int ?cell\<rfloor>, rows = max 12 \<lfloor>bh / of_int ?cell\<rfloor>,
             cell = ?cell,
             width = max 12 \<lfloor>bw / of_int ?cell\<rfloor> * ?cell,
             height = max 12 \<lfloor>bh / of_int ?cell\<rfloor> * ?cell,
             dpr = (if d = 0 then 1 else d)\<rparr>"
  have "updateBoard (Some (bw, bh)) d s =
          (if status s = Ready then resetSnake (s\<lparr>board := ?bd\<rparr>) else s\<lparr>board := ?bd\<rparr>)"
    by (simp add: updateBoard_def Let_def)
  moreover have "12 \<le> cols ?bd \<and> 12 \<le> rows ?bd" by simp
  ultimately show ?thesis by blast
qed

lemma updateBoard_keeps:
  "status (updateBoard b d s) = status s \<and> score (updateBoard b d s) = score s \<and>
   highScore (updateBoard b d s) = highScore s"
proof (cases b)
  case None
  then show ?thesis by (simp add: updateBoard_None)
next
  case (Some wh)
  obtain bw bh where wh: "wh = (bw, bh)" by (cases wh)
  from updateBoard_Some [of bw bh d s] Some wh show ?thesis
    by (auto simp: resetSnake_keeps)
qed

lemma requestDirection_keeps:
  "board (requestDirection c s) = board s \<and> snake (requestDirection c s) = snake s \<and>
   food (requestDirection c s) = food s \<and> direction (requestDirection c s) = direction s \<and>
   status (requestDirection c s) = status s \<and> score (requestDirection c s) = score s \<and>
   highScore (requestDirection c s) = highScore s"
  by (simp add: requestDirection_def Let_def)

lemma handleKey_cases:
  "handleKey k s = s \<or> handleKey k s = startGame s \<or> (\<exists>c. handleKey k s = requestDirection c s)"
  by (auto simp: handleKey_def Let_def split: option.splits)

lemma handleKey_not_start:
  "\<not> startsGame (KeyDown k) \<Longrightarrow> handleKey k s = s \<or> (\<exists>c. handleKey k s = requestDirection c s)"
  by (auto simp: handleKey_def Let_def split: option.splits)

lemma step_highScore: "highScore s \<le> highScore (step s e)"
proof (cases e)
  case (Resize b d)
  then show ?thesis by (simp add: updateBoard_keeps)
next
  case (KeyDown k)
  with handleKey_cases [of k s] show ?thesis
    by (auto simp: startGame_keeps requestDirection_keeps)
next
  case ClickStart
  then show ?thesis by (simp add: startGame_keeps)
next
  case Timer
  have "highScore s \<le> highScore (snd (tick s))"
    using tick_scores [of s] by (cases "fst (tick s) = Inr (Some Ate)") auto
  with Timer show ?thesis by simp
qed

lemma run_Nil: "run s [] = s"
  by (simp add: run_def)

lemma run_Cons: "run s (e # evs) = run (step s e) evs"
  by (simp add: run_def)

lemma run_highScore: "highScore s \<le> highScore (run s evs)"
proof (induction evs arbitrary: s)
  case Nil
  show ?case by (simp add: run_Nil)
next
  case (Cons e evs)
  have "highScore s \<le> highScore (step s e)" by (rule step_highScore)
  also have "\<dots> \<le> highScore (run (step s e) evs)" by (rule Cons.IH)
  finally show ?case by (simp add: run_Cons)
qed

lemma wellFormed_sized:
  "wellFormed s \<Longrightarrow> cols (board s) \<noteq> 0 \<or> rows (board s) \<noteq> 0 \<Longrightarrow>
   12 \<le> cols (board s) \<and> 12 \<le> rows (board s) \<and> snake s \<noteq> []"
  by (auto simp: wellFormed_def)

lemma wellFormed_resetSnake:
  "0 \<le> score s \<Longrightarrow> 12 \<le> cols (board s) \<Longrightarrow> 12 \<le> rows (board s) \<Longrightarrow> wellFormed (resetSnake s)"
  by (simp add: resetSnake_sized wellFormed_def initialSnake_def)

lemma wellFormed_startGame: "wellFormed s \<Longrightarrow> wellFormed (startGame s)"
proof (cases "cols (board s) = 0")
  case True
  assume "wellFormed s"
  with True show ?thesis by (simp add: startGame_def)
next
  case False
  assume "wellFormed s"
  with False have "12 \<le> cols (board s) \<and> 12 \<le> rows (board s)"
    using wellFormed_sized [of s] by simp
  then have "wellFormed (resetSnake (s\<lparr>score := 0\<rparr>))"
    by (simp add: wellFormed_resetSnake)
  then have "wellFormed ((resetSnake (s\<lparr>score := 0\<rparr>))\<lparr>status := Running\<rparr>)"
    unfolding wellFormed_def
    using resetSnake_keeps [of "s\<lparr>score := 0\<rparr>"] \<open>12 \<le> cols (board s) \<and> 12 \<le> rows (board s)\<close>
    by auto
  with False show ?thesis by (simp add: startGame_def)
qed

lemma wellFormed_updateBoard: "wellFormed s \<Longrightarrow> wellFormed (updateBoard b d s)"
proof (cases b)
  case None
  assume "wellFormed s"
  with None show ?thesis by (simp add: updateBoard_None)
next
  case (Some wh)
  assume wf: "wellFormed s"
  obtain bw bh where wh: "wh = (bw, bh)" by (cases wh)
  from updateBoard_Some [of bw bh d s] obtain bd where bd: "12 \<le> cols bd" "12 \<le> rows bd"
    and u: "updateBoard (Some (bw, bh)) d s =
          (if status s = Ready then resetSnake (s\<lparr>board := bd\<rparr>) else s\<lparr>board := bd\<rparr>)"
    by blast
  show ?thesis
  proof (cases "status s = Ready")
    case True
    have "wellFormed (resetSnake (s\<lparr>board := bd\<rparr>))"
      using wf bd by (intro wellFormed_resetSnake) (simp_all add: wellFormed_def)
    with True u Some wh show ?thesis by simp
  next
    case False
    with wf have "snake s \<noteq> [] \<and> 0 \<le> score s" by (auto simp: wellFormed_def)
    with bd have "wellFormed (s\<lparr>board := bd\<rparr>)" by (simp add: wellFormed_def)
    with False u Some wh show ?thesis by simp
  qed
qed

lemma wellFormed_requestDirection: "wellFormed s \<Longrightarrow> wellFormed (requestDirection c s)"
  by (simp add: wellFormed_def requestDirection_keeps)

lemma wellFormed_tick:
  assumes "wellFormed s" and "status s = Running"
  shows "wellFormed (snd (tick s))"
proof -
  from assms have sz: "12 \<le> cols (board s)" "12 \<le> rows (board s)" "snake s \<noteq> []" "0 \<le> score s"
    by (auto simp: wellFormed_def)
  have "0 \<le> score (snd (tick s))"
    using tick_scores [of s] sz(4) by (cases "fst (tick s) = Inr (Some Ate)") auto
  moreover have "snake (snd (tick s)) \<noteq> []" using sz(3) by (rule tick_snake_nonempty)
  moreover have "board (snd (tick s)) = board s" using tick_keeps by blast
  ultimately show ?thesis using sz(1,2) by (simp add: wellFormed_def)
qed

lemma wellFormed_step: "wellFormed s \<Longrightarrow> wellFormed (step s e)"
proof (cases e)
  case (Resize b d)
  assume "wellFormed s"
  with Resize show ?thesis by (simp add: wellFormed_updateBoard)
next
  case (KeyDown k)
  assume "wellFormed s"
  with KeyDown handleKey_cases [of k s] show ?thesis
    by (auto simp: wellFormed_startGame wellFormed_requestDirection)
next
  case ClickStart
  assume "wellFormed s"
  with ClickStart show ?thesis by (simp add: wellFormed_startGame)
next
  case Timer
  assume "wellFormed s"
  with Timer show ?thesis by (simp add: wellFormed_tick)
qed

lemma wellFormed_initialState: "wellFormed (initialState stored r)"
  by (simp add: wellFormed_def initialState_def)

lemma reachable_wellFormed: "reachable s \<Longrightarrow> wellFormed s"
  by (induction rule: reachable.induct) (simp_all add: wellFormed_initialState wellFormed_step)

lemma wellFormed_run: "wellFormed s \<Longrightarrow> wellFormed (run s evs)"
  by (induction evs arbitrary: s) (simp_all add: run_Nil run_Cons wellFormed_step)

lemma reachable_run: "reachable s \<Longrightarrow> reachable (run s evs)"
  by (induction evs arbitrary: s) (simp_all add: run_Nil run_Cons reachable.after)

lemma running_game_sized:
  assumes "reachable s" and "status s = Running"
  shows "cols (board s) \<noteq> 0 \<and> rows (board s) \<noteq> 0 \<and> snake s \<noteq> []"
  using reachable_wellFormed [OF assms(1)] assms(2) by (auto simp: wellFormed_def)

subsection \<open>Starting a run: the claim\<close>

text \<open>
  Claim C6. \<open>startGame\<close> changes nothing on a board without columns. On a board with
  columns and rows, and on a board with columns in any state the page reaches, it sets the
  score to 0, lays the snake of three segments from the centre cell towards
  smaller \<open>x\<close>, makes right both the current and the pending direction, places food with
  \<open>spawnFood\<close> for that snake, and sets the status to \<open>running\<close>.
\<close>
theorem startGame_effect:
  "(cols (board s) = 0 \<longrightarrow> startGame s = s) \<and>
   (cols (board s) \<noteq> 0 \<and> (rows (board s) \<noteq> 0 \<or> reachable s) \<longrightarrow>
      startGame s =
        s\<lparr>score := 0,
          snake := [\<lparr>x = cols (board s) div 2, y = rows (board s) div 2\<rparr>,
                    \<lparr>x = cols (board s) div 2 - 1, y = rows (board s) div 2\<rparr>,
                    \<lparr>x = cols (board s) div 2 - 2, y = rows (board s) div 2\<rparr>],
          direction := Dir Right,
          pendingDirection := Dir Right,
          food := fst (spawnFood (initialSnake (board s)) (board s) (random s)),
          random := snd (spawnFood (initialSnake (board s)) (board s) (random s)),
          status := Running\<rparr>)"
proof -
  have a: "cols (board s) = 0 \<longrightarrow> startGame s = s"
    by (simp add: startGame_def)
  have r: "rows (board s) \<noteq> 0" if "cols (board s) \<noteq> 0" and "reachable s"
    using that reachable_wellFormed [of s] wellFormed_sized [of s] by auto
  have b: "cols (board s) \<noteq> 0 \<and> rows (board s) \<noteq> 0 \<longrightarrow>
      startGame s =
        s\<lparr>score := 0,
          snake := [\<lparr>x = cols (board s) div 2, y = rows (board s) div 2\<rparr>,
                    \<lparr>x = cols (board s) div 2 - 1, y = rows (board s) div 2\<rparr>,
                    \<lparr>x = cols (board s) div 2 - 2, y = rows (board s) div 2\<rparr>],
          direction := Dir Right,
          pendingDirection := Dir Right,
          food := fst (spawnFood (initialSnake (board s)) (board s) (random s)),
          random := snd (spawnFood (initialSnake (board s)) (board s) (random s)),
          status := Running\<rparr>"
    by (simp add: startGame_def resetSnake_sized) (simp add: initialSnake_def)
  from a b r show ?thesis by blast
qed

lemma sample_half: "sample (boardOf 12 12) (always (dyadic 2 2)) k = \<lparr>x = 6, y = 6\<rparr>"
  by (simp add: sample_exact boardOf_def)

lemma resized:
  "board (updateBoard (Some (400, 300)) 2 s) =
     \<lparr>cols = 28, rows = 21, cell = 14, width = 392, height = 294, dpr = 2\<rparr>"
  by (simp add: updateBoard_def Let_def clamp_def resetSnake_keeps)

theorem startGame_effect_witness:
  "startGame (initialState 7 (always (dyadic 2 2))) = initialState 7 (always (dyadic 2 2)) \<and>
   snake (startGame ((game [] \<lparr>x = 3, y = 3\<rparr> Up Left)\<lparr>status := Gameover, score := 5\<rparr>))
     = [\<lparr>x = 6, y = 6\<rparr>, \<lparr>x = 5, y = 6\<rparr>, \<lparr>x = 4, y = 6\<rparr>] \<and>
   score (startGame ((game [] \<lparr>x = 3, y = 3\<rparr> Up Left)\<lparr>status := Gameover, score := 5\<rparr>)) = 0 \<and>
   status (startGame ((game [] \<lparr>x = 3, y = 3\<rparr> Up Left)\<lparr>status := Gameover, score := 5\<rparr>))
     = Running \<and>
   direction (startGame ((game [] \<lparr>x = 3, y = 3\<rparr> Up Left)\<lparr>status := Gameover, score := 5\<rparr>))
     = Dir Right \<and>
   pendingDirection (startGame ((game [] \<lparr>x = 3, y = 3\<rparr> Up Left)\<lparr>status := Gameover, score := 5\<rparr>))
     = Dir Right \<and>
   food (startGame ((game [] \<lparr>x = 3, y = 3\<rparr> Up Left)\<lparr>status := Gameover, score := 5\<rparr>))
     = \<lparr>x = 0, y = 0\<rparr> \<and>
   snake (startGame (run (initialState 7 (always (dyadic 2 2))) [Resize (Some (400, 300)) 2]))
     = [\<lparr>x = 14, y = 10\<rparr>, \<lparr>x = 13, y = 10\<rparr>, \<lparr>x = 12, y = 10\<rparr>] \<and>
   status (startGame (run (initialState 7 (always (dyadic 2 2))) [Resize (Some (400, 300)) 2]))
     = Running"
proof -
  let ?i = "initialState 7 (always (dyadic 2 2))"
  let ?g = "(game [] \<lparr>x = 3, y = 3\<rparr> Up Left)\<lparr>status := Gameover, score := 5\<rparr>"
  let ?r = "run ?i [Resize (Some (400, 300)) 2]"
  have g: "cols (board ?g) \<noteq> 0 \<and> (rows (board ?g) \<noteq> 0 \<or> reachable ?g)"
    by (simp add: game_def boardOf_def)
  have "initialSnake (boardOf 12 12) = [\<lparr>x = 6, y = 6\<rparr>, \<lparr>x = 5, y = 6\<rparr>, \<lparr>x = 4, y = 6\<rparr>]"
    by (simp add: initialSnake_def boardOf_def)
  then have "\<forall>j<500. sample (boardOf 12 12) (always (dyadic 2 2)) j \<in> set (initialSnake (boardOf 12 12))"
    by (simp add: sample_half)
  then have f: "fst (spawnFood (initialSnake (board ?g)) (board ?g) (random ?g)) = \<lparr>x = 0, y = 0\<rparr>"
    by (simp add: spawnFood_miss game_def)
  have bd: "board ?r = \<lparr>cols = 28, rows = 21, cell = 14, width = 392, height = 294, dpr = 2\<rparr>"
    by (simp add: run_def resized)
  have "reachable ?r" by (intro reachable_run reachable.first)
  with bd have r: "cols (board ?r) \<noteq> 0 \<and> (rows (board ?r) \<noteq> 0 \<or> reachable ?r)" by simp
  from startGame_effect [of ?i]
  have 1: "startGame ?i = ?i" by (simp add: initialState_def)
  from startGame_effect [of ?g] g
  have "startGame ?g =
        ?g\<lparr>score := 0,
          snake := [\<lparr>x = cols (board ?g) div 2, y = rows (board ?g) div 2\<rparr>,
                    \<lparr>x = cols (board ?g) div 2 - 1, y = rows (board ?g) div 2\<rparr>,
                    \<lparr>x = cols (board ?g) div 2 - 2, y = rows (board ?g) div 2\<rparr>],
          direction := Dir Right,
          pendingDirection := Dir Right,
          food := fst (spawnFood (initialSnake (board ?g)) (board ?g) (random ?g)),
          random := snd (spawnFood (initialSnake (board ?g)) (board ?g) (random ?g)),
          status := Running\<rparr>"
    by blast
  then have 2: "snake (startGame ?g) = [\<lparr>x = 6, y = 6\<rparr>, \<lparr>x = 5, y = 6\<rparr>, \<lparr>x = 4, y = 6\<rparr>] \<and>
      score (startGame ?g) = 0 \<and> status (startGame ?g) = Running \<and>
      direction (startGame ?g) = Dir Right \<and> pendingDirection (startGame ?g) = Dir Right \<and>
      food (startGame ?g) = \<lparr>x = 0, y = 0\<rparr>"
    using f by (simp add: game_def boardOf_def)
  from startGame_effect [of ?r] r
  have "startGame ?r =
        ?r\<lparr>score := 0,
          snake := [\<lparr>x = cols (board ?r) div 2, y = rows (board ?r) div 2\<rparr>,
                    \<lparr>x = cols (board ?r) div 2 - 1, y = rows (board ?r) div 2\<rparr>,
                    \<lparr>x = cols (board ?r) div 2 - 2, y = rows (board ?r) div 2\<rparr>],
          direction := Dir Right,
          pendingDirection := Dir Right,
          food := fst (spawnFood (initialSnake (board ?r)) (board ?r) (random ?r)),
          random := snd (spawnFood (initialSnake (board ?r)) (board ?r) (random ?r)),
          status := Running\<rparr>"
    by blast
  then have 3: "snake (startGame ?r) = [\<lparr>x = 14, y = 10\<rparr>, \<lparr>x = 13, y = 10\<rparr>, \<lparr>x = 12, y = 10\<rparr>] \<and>
      status (startGame ?r) = Running"
    by (simp add: bd)
  from 1 2 3 show ?thesis by simp
qed

subsection \<open>After a fatal tick\<close>

lemma frozen_step:
  assumes "status s = Gameover" and "\<not> startsGame e"
  shows "status (step s e) = Gameover \<and> snake (step s e) = snake s \<and>
         food (step s e) = food s \<and> score (step s e) = score s \<and>
         highScore (step s e) = highScore s \<and> direction (step s e) = direction s"
proof (cases e)
  case (Resize b d)
  show ?thesis
  proof (cases b)
    case None
    with Resize assms show ?thesis by (simp add: updateBoard_None)
  next
    case (Some wh)
    obtain bw bh where wh: "wh = (bw, bh)" by (cases wh)
    from updateBoard_Some [of bw bh d s] Resize Some wh assms(1) show ?thesis by auto
  qed
next
  case (KeyDown k)
  with assms(2) handleKey_not_start [of k s] assms(1) show ?thesis
    by (auto simp: requestDirection_keeps)
next
  case ClickStart
  with assms(2) show ?thesis by simp
next
  case Timer
  with assms(1) show ?thesis by simp
qed

lemma frozen_run:
  "status s = Gameover \<Longrightarrow> \<forall>e\<in>set evs. \<not> startsGame e \<Longrightarrow>
   status (run s evs) = Gameover \<and> snake (run s evs) = snake s \<and>
   food (run s evs) = food s \<and> score (run s evs) = score s \<and>
   highScore (run s evs) = highScore s \<and> direction (run s evs) = direction s"
proof (induction evs arbitrary: s)
  case Nil
  then show ?case by (simp add: run_Nil)
next
  case (Cons e evs)
  from Cons.prems have f: "status (step s e) = Gameover \<and> snake (step s e) = snake s \<and>
         food (step s e) = food s \<and> score (step s e) = score s \<and>
         highScore (step s e) = highScore s \<and> direction (step s e) = direction s"
    by (intro frozen_step) simp_all
  moreover from Cons.prems f have
    "status (run (step s e) evs) = Gameover \<and> snake (run (step s e) evs) = snake (step s e) \<and>
     food (run (step s e) evs) = food (step s e) \<and> score (run (step s e) evs) = score (step s e) \<and>
     highScore (run (step s e) evs) = highScore (step s e) \<and>
     direction (run (step s e) evs) = direction (step s e)"
    by (intro Cons.IH) simp_all
  ultimately show ?case by (simp add: run_Cons)
qed

lemma tick_Died_state:
  assumes "fst (tick s) = Inr (Some Died)"
  shows "snd (tick s) = s\<lparr>direction := pendingDirection s, status := Gameover\<rparr>"
proof -
  from tick_Died_D [OF assms] obtain h body d where
    c: "cols (board s) \<noteq> 0" "rows (board s) \<noteq> 0" "snake s = h # body"
       "pendingDirection s = Dir d" by blast
  have "fst (tick s) = Inr (Some Died) \<longleftrightarrow>
          \<not> inGrid (board s) (moved h d) \<or> moved h d \<in> set (snake s)"
    by (simp add: tick_cons [OF c])
  with assms show ?thesis by (simp add: tick_cons [OF c] c(4))
qed

text \<open>
  Claim C8. A tick that exits with \<open>Died\<close> changes the status to \<open>gameover\<close> and the
  current direction to the pending one, and nothing else: score, snake and food are as
  before. From then on, whatever events arrive (timer, resize, keys), score, snake and
  food stay as they are until an event that starts a new run.
\<close>
theorem died_freezes:
  "(fst (tick s) = Inr (Some Died) \<longrightarrow>
      snd (tick s) = s\<lparr>direction := pendingDirection s, status := Gameover\<rparr>) \<and>
   (fst (tick s) = Inr (Some Died) \<and> (\<forall>e\<in>set evs. \<not> startsGame e) \<longrightarrow>
      status (run (snd (tick s)) evs) = Gameover \<and>
      score (run (snd (tick s)) evs) = score s \<and>
      snake (run (snd (tick s)) evs) = snake s \<and>
      food (run (snd (tick s)) evs) = food s)"
proof -
  have a: "fst (tick s) = Inr (Some Died) \<longrightarrow>
      snd (tick s) = s\<lparr>direction := pendingDirection s, status := Gameover\<rparr>"
    using tick_Died_state by blast
  have b: "status (run (snd (tick s)) evs) = Gameover \<and>
      score (run (snd (tick s)) evs) = score s \<and>
      snake (run (snd (tick s)) evs) = snake s \<and>
      food (run (snd (tick s)) evs) = food s"
    if d: "fst (tick s) = Inr (Some Died)" and n: "\<forall>e\<in>set evs. \<not> startsGame e"
  proof -
    let ?g = "s\<lparr>direction := pendingDirection s, status := Gameover\<rparr>"
    have "status ?g = Gameover" by simp
    from frozen_run [OF this n] tick_Died_state [OF d] show ?thesis by simp
  qed
  from a b show ?thesis by blast
qed

theorem died_freezes_witness:
  "fst (tick (game [\<lparr>x = 0, y = 6\<rparr>, \<lparr>x = 1, y = 6\<rparr>, \<lparr>x = 2, y = 6\<rparr>] \<lparr>x = 9, y = 9\<rparr> Left Left))
     = Inr (Some Died) \<and>
   snake (run (snd (tick (game [\<lparr>x = 0, y = 6\<rparr>, \<lparr>x = 1, y = 6\<rparr>, \<lparr>x = 2, y = 6\<rparr>] \<lparr>x = 9, y = 9\<rparr> Left Left)))
           [Timer, KeyDown ''ArrowUp'', Resize (Some (400, 300)) 2, Timer])
     = [\<lparr>x = 0, y = 6\<rparr>, \<lparr>x = 1, y = 6\<rparr>, \<lparr>x = 2, y = 6\<rparr>] \<and>
   food (run (snd (tick (game [\<lparr>x = 0, y = 6\<rparr>, \<lparr>x = 1, y = 6\<rparr>, \<lparr>x = 2, y = 6\<rparr>] \<lparr>x = 9, y = 9\<rparr> Left Left)))
           [Timer, KeyDown ''ArrowUp'', Resize (Some (400, 300)) 2, Timer])
     = \<lparr>x = 9, y = 9\<rparr> \<and>
   score (run (snd (tick (game [\<lparr>x = 0, y = 6\<rparr>, \<lparr>x = 1, y = 6\<rparr>, \<lparr>x = 2, y = 6\<rparr>] \<lparr>x = 9, y = 9\<rparr> Left Left)))
           [Timer, KeyDown ''ArrowUp'', Resize (Some (400, 300)) 2, Timer])
     = 0 \<and>
   status (run (snd (tick (game [\<lparr>x = 0, y = 6\<rparr>, \<lparr>x = 1, y = 6\<rparr>, \<lparr>x = 2, y = 6\<rparr>] \<lparr>x = 9, y = 9\<rparr> Left Left)))
           [Timer, KeyDown ''ArrowUp'', Resize (Some (400, 300)) 2, Timer])
     = Gameover"
proof -
  let ?g = "game [\<lparr>x = 0, y = 6\<rparr>, \<lparr>x = 1, y = 6\<rparr>, \<lparr>x = 2, y = 6\<rparr>] \<lparr>x = 9, y = 9\<rparr> Left Left"
  let ?evs = "[Timer, KeyDown ''ArrowUp'', Resize (Some (400, 300)) 2, Timer]"
  have died: "fst (tick ?g) = Inr (Some Died)"
    using tick_cons [of ?g "\<lparr>x = 0, y = 6\<rparr>" "[\<lparr>x = 1, y = 6\<rparr>, \<lparr>x = 2, y = 6\<rparr>]" Left]
    by (simp add: game_def boardOf_def inGrid_def moved_def)
  have up: "toLowerCase ''ArrowUp'' = ''arrowup''" by code_simp
  have quiet: "\<forall>e\<in>set ?evs. \<not> startsGame e"
    by (simp add: up)
  from died quiet have pre: "fst (tick ?g) = Inr (Some Died) \<and> (\<forall>e\<in>set ?evs. \<not> startsGame e)"
    by blast
  from died_freezes [of ?g ?evs] pre have
    "status (run (snd (tick ?g)) ?evs) = Gameover \<and>
     score (run (snd (tick ?g)) ?evs) = score ?g \<and>
     snake (run (snd (tick ?g)) ?evs) = snake ?g \<and>
     food (run (snd (tick ?g)) ?evs) = food ?g"
    by blast
  moreover have "score ?g = 0" "snake ?g = [\<lparr>x = 0, y = 6\<rparr>, \<lparr>x = 1, y = 6\<rparr>, \<lparr>x = 2, y = 6\<rparr>]"
    "food ?g = \<lparr>x = 9, y = 9\<rparr>"
    by (simp_all add: game_def)
  ultimately show ?thesis using died by simp
qed

subsection \<open>Score and high score\<close>

text \<open>
  Claim C7. Over any sequence of events the high score never decreases. \<open>startGame\<close>
  sets the score to 0 on a sized board, and in every state the page reaches. A tick that
  exits with \<open>Ate\<close> adds one to the score and makes the high score the larger of the old
  high score and the new score; one that exits with \<open>Moved\<close> or \<open>Died\<close> changes
  neither. An event that does not start a run keeps the score or adds one to it, so none
  of them resets it.
\<close>
theorem score_rules:
  "highScore s \<le> highScore (run s evs) \<and>
   (cols (board s) \<noteq> 0 \<longrightarrow> score (startGame s) = 0) \<and>
   (reachable s \<longrightarrow> score (startGame s) = 0) \<and>
   (fst (tick s) = Inr (Some Ate) \<longrightarrow>
      score (snd (tick s)) = score s + 1 \<and>
      highScore (snd (tick s)) = max (highScore s) (score (snd (tick s)))) \<and>
   (fst (tick s) = Inr (Some Moved) \<or> fst (tick s) = Inr (Some Died) \<longrightarrow>
      score (snd (tick s)) = score s \<and> highScore (snd (tick s)) = highScore s) \<and>
   (\<not> startsGame e \<longrightarrow> score (step s e) = score s \<or> score (step s e) = score s + 1)"
proof -
  have a: "highScore s \<le> highScore (run s evs)" by (rule run_highScore)
  have b: "cols (board s) \<noteq> 0 \<longrightarrow> score (startGame s) = 0"
    by (simp add: startGame_def resetSnake_keeps)
  have c: "reachable s \<longrightarrow> score (startGame s) = 0"
  proof
    assume "reachable s"
    then have "wellFormed s" by (rule reachable_wellFormed)
    then have "cols (board s) = 0 \<longrightarrow> score s = 0" by (auto simp: wellFormed_def)
    then show "score (startGame s) = 0"
      by (cases "cols (board s) = 0") (simp_all add: startGame_def resetSnake_keeps)
  qed
  have d: "fst (tick s) = Inr (Some Ate) \<longrightarrow>
      score (snd (tick s)) = score s + 1 \<and>
      highScore (snd (tick s)) = max (highScore s) (score (snd (tick s)))"
    using tick_scores [of s] by simp
  have e: "fst (tick s) = Inr (Some Moved) \<or> fst (tick s) = Inr (Some Died) \<longrightarrow>
      score (snd (tick s)) = score s \<and> highScore (snd (tick s)) = highScore s"
    using tick_scores [of s] by auto
  have f: "\<not> startsGame e \<longrightarrow> score (step s e) = score s \<or> score (step s e) = score s + 1"
  proof
    assume n: "\<not> startsGame e"
    show "score (step s e) = score s \<or> score (step s e) = score s + 1"
    proof (cases e)
      case (Resize b d)
      then show ?thesis by (simp add: updateBoard_keeps)
    next
      case (KeyDown k)
      with n handleKey_not_start [of k s] show ?thesis
        by (auto simp: requestDirection_keeps)
    next
      case ClickStart
      with n show ?thesis by simp
    next
      case Timer
      with tick_scores [of s] show ?thesis
        by (cases "fst (tick s) = Inr (Some Ate)") auto
    qed
  qed
  from a b c d e f show ?thesis by blast
qed

theorem score_rules_witness:
  "score (snd (tick (game [\<lparr>x = 6, y = 6\<rparr>, \<lparr>x = 5, y = 6\<rparr>, \<lparr>x = 4, y = 6\<rparr>] \<lparr>x = 7, y = 6\<rparr> Right Right)))
     = 1 \<and>
   highScore (snd (tick (game [\<lparr>x = 6, y = 6\<rparr>, \<lparr>x = 5, y = 6\<rparr>, \<lparr>x = 4, y = 6\<rparr>] \<lparr>x = 7, y = 6\<rparr> Right Right)))
     = 1 \<and>
   score (snd (tick ((game [\<lparr>x = 6, y = 6\<rparr>] \<lparr>x = 7, y = 6\<rparr> Right Up)\<lparr>score := 5, highScore := 9\<rparr>)))
     = 5 \<and>
   highScore (snd (tick ((game [\<lparr>x = 6, y = 6\<rparr>] \<lparr>x = 7, y = 6\<rparr> Right Up)\<lparr>score := 5, highScore := 9\<rparr>)))
     = 9 \<and>
   score (startGame ((game [\<lparr>x = 6, y = 6\<rparr>] \<lparr>x = 7, y = 6\<rparr> Right Up)\<lparr>score := 5, highScore := 9\<rparr>))
     = 0 \<and>
   9 \<le> highScore (run ((game [\<lparr>x = 6, y = 6\<rparr>] \<lparr>x = 7, y = 6\<rparr> Right Up)\<lparr>score := 5, highScore := 9\<rparr>)
          [Timer, ClickStart, Timer]) \<and>
   (score (step ((game [\<lparr>x = 6, y = 6\<rparr>] \<lparr>x = 7, y = 6\<rparr> Right Up)\<lparr>score := 5, highScore := 9\<rparr>)
            (KeyDown ''w'')) = 5 \<or>
    score (step ((game [\<lparr>x = 6, y = 6\<rparr>] \<lparr>x = 7, y = 6\<rparr> Right Up)\<lparr>score := 5, highScore := 9\<rparr>)
            (KeyDown ''w'')) = 6) \<and>
   score (startGame (initialState 7 (always (dyadic 2 2)))) = 0"
proof -
  let ?g = "game [\<lparr>x = 6, y = 6\<rparr>, \<lparr>x = 5, y = 6\<rparr>, \<lparr>x = 4, y = 6\<rparr>] \<lparr>x = 7, y = 6\<rparr> Right Right"
  let ?h = "(game [\<lparr>x = 6, y = 6\<rparr>] \<lparr>x = 7, y = 6\<rparr> Right Up)\<lparr>score := 5, highScore := 9\<rparr>"
  let ?i = "initialState 7 (always (dyadic 2 2))"
  have ate: "fst (tick ?g) = Inr (Some Ate)"
    using tick_cons [of ?g "\<lparr>x = 6, y = 6\<rparr>" "[\<lparr>x = 5, y = 6\<rparr>, \<lparr>x = 4, y = 6\<rparr>]" Right]
    by (simp add: game_def boardOf_def inGrid_def moved_def)
  have mv: "fst (tick ?h) = Inr (Some Moved)"
    using tick_cons [of ?h "\<lparr>x = 6, y = 6\<rparr>" "[]" Up]
    by (simp add: game_def boardOf_def inGrid_def moved_def)
  have g: "score ?g = 0" "highScore ?g = 0" by (simp_all add: game_def)
  have h: "cols (board ?h) \<noteq> 0" "highScore ?h = 9" "score ?h = 5"
    by (simp_all add: game_def boardOf_def)
  have w: "\<not> startsGame (KeyDown ''w'')" by (simp add: toLowerCase_def)
  have i: "reachable ?i" by (rule reachable.first)
  from score_rules [of ?g "[]" Timer] ate g
  have 1: "score (snd (tick ?g)) = 1 \<and> highScore (snd (tick ?g)) = 1" by simp
  from score_rules [of ?h "[Timer, ClickStart, Timer]" "KeyDown ''w''"] h mv w
  have 2: "score (snd (tick ?h)) = 5 \<and> highScore (snd (tick ?h)) = 9 \<and>
           score (startGame ?h) = 0 \<and> 9 \<le> highScore (run ?h [Timer, ClickStart, Timer]) \<and>
           (score (step ?h (KeyDown ''w'')) = 5 \<or> score (step ?h (KeyDown ''w'')) = 6)"
    by simp
  from score_rules [of ?i "[]" Timer] i
  have 3: "score (startGame ?i) = 0" by blast
  from 1 2 3 show ?thesis by blast
qed

subsection \<open>Where the food lands\<close>

lemma tick_Ate_state:
  assumes "fst (tick s) = Inr (Some Ate)"
  shows "\<exists>n. snake (snd (tick s)) = n # snake s \<and>
             food (snd (tick s)) = fst (spawnFood (n # snake s) (board s) (random s))"
proof -
  have sized: "cols (board s) \<noteq> 0" "rows (board s) \<noteq> 0"
    using assms tick_unsized [of s] by auto
  from sized show ?thesis
  proof (cases rule: tick_sized_cases)
    case throws
    with assms show ?thesis by simp
  next
    case (steps h body d)
    note c = sized steps
    have "fst (tick s) = Inr (Some Ate) \<longleftrightarrow>
            \<not> (\<not> inGrid (board s) (moved h d) \<or> moved h d \<in> set (snake s)) \<and>
            moved h d = food s"
      by (simp add: tick_cons [OF c])
    with assms have cond:
      "\<not> (\<not> inGrid (board s) (moved h d) \<or> moved h d \<in> set (snake s)) \<and>
       moved h d = food s"
      by blast
    have "snake (snd (tick s)) = moved h d # snake s \<and>
          food (snd (tick s)) = fst (spawnFood (moved h d # snake s) (board s) (random s))"
      using cond by (auto simp: tick_cons [OF c])
    then show ?thesis by blast
  qed
qed

lemma spawnFood_on_snake_iff:
  "fst (spawnFood sn bd r) \<in> set sn \<longleftrightarrow>
     (\<forall>k<500. sample bd r k \<in> set sn) \<and> \<lparr>x = 0, y = 0\<rparr> \<in> set sn"
  using spawnFood_cases [of bd r sn] by auto

lemma spawnFood_in_grid:
  assumes "unit_draws r" "0 < cols bd" "0 < rows bd"
  shows "inGrid bd (fst (spawnFood sn bd r))"
proof -
  have s: "inGrid bd (sample bd r k)" for k
    using sample_in_grid [OF assms, of k] by (simp add: inGrid_def)
  have z: "inGrid bd \<lparr>x = 0, y = 0\<rparr>"
    using assms(2,3) by (simp add: inGrid_def)
  from spawnFood_cases [of bd r sn] s z show ?thesis by auto
qed

lemma origin_off_initialSnake: "rows bd div 2 \<noteq> 0 \<Longrightarrow> \<lparr>x = 0, y = 0\<rparr> \<notin> set (initialSnake bd)"
  by (simp add: initialSnake_def)

text \<open>
  Claim C4 asks for a free cell whenever the board has one. The loop only looks at the
  cells it draws: with a snake on \<open>(0,0)\<close>, \<open>(1,0)\<close>, \<open>(2,0)\<close> of a 12 by 12 board and
  draws that are all 0, every attempt draws \<open>(0,0)\<close>, and the food lands on the snake
  although \<open>(5,5)\<close> is free.
\<close>
theorem spawnFood_occupied_counterexample:
  "unit_draws (always (dyadic 0 0)) \<and>
   inGrid (boardOf 12 12) \<lparr>x = 5, y = 5\<rparr> \<and>
   \<lparr>x = 5, y = 5\<rparr> \<notin> set [\<lparr>x = 0, y = 0\<rparr>, \<lparr>x = 1, y = 0\<rparr>, \<lparr>x = 2, y = 0\<rparr>] \<and>
   fst (spawnFood [\<lparr>x = 0, y = 0\<rparr>, \<lparr>x = 1, y = 0\<rparr>, \<lparr>x = 2, y = 0\<rparr>] (boardOf 12 12)
          (always (dyadic 0 0)))
     \<in> set [\<lparr>x = 0, y = 0\<rparr>, \<lparr>x = 1, y = 0\<rparr>, \<lparr>x = 2, y = 0\<rparr>]"
proof -
  have "\<forall>j<500. sample (boardOf 12 12) (always (dyadic 0 0)) j
          \<in> set [\<lparr>x = 0, y = 0\<rparr>, \<lparr>x = 1, y = 0\<rparr>, \<lparr>x = 2, y = 0\<rparr>]"
    by (simp add: sample_exact boardOf_def)
  then have "spawnFood [\<lparr>x = 0, y = 0\<rparr>, \<lparr>x = 1, y = 0\<rparr>, \<lparr>x = 2, y = 0\<rparr>] (boardOf 12 12)
               (always (dyadic 0 0))
               = (\<lparr>x = 0, y = 0\<rparr>, advance 1000 (always (dyadic 0 0)))"
    by (rule spawnFood_miss)
  then show ?thesis
    by (simp add: unit_draws_def unitDouble_def always_def dyadic_def inGrid_def boardOf_def)
qed

text \<open>
  Claim C4, amended. With draws that are doubles in \<open>[0,1)\<close> and a board with columns and
  rows, the cell \<open>spawnFood\<close> returns is always on the board. It is on the snake in one
  case only: all 500 cells drawn are on the snake and \<open>(0,0)\<close> is on the snake too. So the
  food after \<open>startGame\<close> is off the snake on every board with columns and at least two
  rows, and in every state the page reaches, whatever the draws (the snake laid there is
  not in row 0); the food after a tick that exits with \<open>Ate\<close> is off the snake unless all
  500 cells drawn and \<open>(0,0)\<close> are on the grown snake.
\<close>
theorem spawnFood_lands:
  "(unit_draws r \<and> 0 < cols bd \<and> 0 < rows bd \<longrightarrow> inGrid bd (fst (spawnFood sn bd r))) \<and>
   (fst (spawnFood sn bd r) \<in> set sn \<longleftrightarrow>
      (\<forall>k<500. sample bd r k \<in> set sn) \<and> \<lparr>x = 0, y = 0\<rparr> \<in> set sn) \<and>
   (cols (board s) \<noteq> 0 \<and> (2 \<le> rows (board s) \<or> reachable s) \<longrightarrow>
      food (startGame s) \<notin> set (snake (startGame s))) \<and>
   (fst (tick s) = Inr (Some Ate) \<longrightarrow>
      (food (snd (tick s)) \<in> set (snake (snd (tick s))) \<longleftrightarrow>
         (\<forall>k<500. sample (board s) (random s) k \<in> set (snake (snd (tick s)))) \<and>
         \<lparr>x = 0, y = 0\<rparr> \<in> set (snake (snd (tick s)))))"
proof -
  have a: "unit_draws r \<and> 0 < cols bd \<and> 0 < rows bd \<longrightarrow> inGrid bd (fst (spawnFood sn bd r))"
    using spawnFood_in_grid by blast
  have b: "fst (spawnFood sn bd r) \<in> set sn \<longleftrightarrow>
      (\<forall>k<500. sample bd r k \<in> set sn) \<and> \<lparr>x = 0, y = 0\<rparr> \<in> set sn"
    by (rule spawnFood_on_snake_iff)
  have c: "food (startGame s) \<notin> set (snake (startGame s))"
    if cs: "cols (board s) \<noteq> 0" and rs: "2 \<le> rows (board s) \<or> reachable s"
  proof -
    have r2: "2 \<le> rows (board s)"
    proof (cases "2 \<le> rows (board s)")
      case True
      then show ?thesis .
    next
      case False
      with rs have "reachable s" by simp
      then have "wellFormed s" by (rule reachable_wellFormed)
      with cs have "12 \<le> rows (board s)" using wellFormed_sized [of s] by simp
      then show ?thesis by simp
    qed
    then have "rows (board s) div 2 \<noteq> 0" by simp
    then have "\<lparr>x = 0, y = 0\<rparr> \<notin> set (initialSnake (board s))"
      by (rule origin_off_initialSnake)
    then have "fst (spawnFood (initialSnake (board s)) (board s) (random s))
                 \<notin> set (initialSnake (board s))"
      by (simp only: spawnFood_on_snake_iff) simp
    moreover have "rows (board s) \<noteq> 0" using r2 by simp
    ultimately show ?thesis using cs by (simp add: startGame_def resetSnake_sized)
  qed
  have d: "food (snd (tick s)) \<in> set (snake (snd (tick s))) \<longleftrightarrow>
         (\<forall>k<500. sample (board s) (random s) k \<in> set (snake (snd (tick s)))) \<and>
         \<lparr>x = 0, y = 0\<rparr> \<in> set (snake (snd (tick s)))"
    if ate: "fst (tick s) = Inr (Some Ate)"
  proof -
    from tick_Ate_state [OF ate] obtain n where
      n: "snake (snd (tick s)) = n # snake s"
         "food (snd (tick s)) = fst (spawnFood (n # snake s) (board s) (random s))" by blast
    show ?thesis
      unfolding n by (rule spawnFood_on_snake_iff)
  qed
  from a b c d show ?thesis by blast
qed

lemma sample_three_quarters:
  "sample (boardOf 12 12) (always (dyadic 3 2)) k = \<lparr>x = 9, y = 9\<rparr>"
  by (simp add: sample_exact boardOf_def)

theorem spawnFood_lands_witness:
  "inGrid (boardOf 12 12)
     (fst (spawnFood [\<lparr>x = 6, y = 6\<rparr>, \<lparr>x = 5, y = 6\<rparr>, \<lparr>x = 4, y = 6\<rparr>] (boardOf 12 12)
            (always (dyadic 3 2)))) \<and>
   fst (spawnFood [\<lparr>x = 6, y = 6\<rparr>, \<lparr>x = 5, y = 6\<rparr>, \<lparr>x = 4, y = 6\<rparr>] (boardOf 12 12)
          (always (dyadic 3 2)))
     \<notin> set [\<lparr>x = 6, y = 6\<rparr>, \<lparr>x = 5, y = 6\<rparr>, \<lparr>x = 4, y = 6\<rparr>] \<and>
   fst (spawnFood [\<lparr>x = 6, y = 6\<rparr>, \<lparr>x = 5, y = 6\<rparr>, \<lparr>x = 4, y = 6\<rparr>] (boardOf 12 12)
          (always (dyadic 2 2)))
     \<notin> set [\<lparr>x = 6, y = 6\<rparr>, \<lparr>x = 5, y = 6\<rparr>, \<lparr>x = 4, y = 6\<rparr>] \<and>
   food (startGame (run (initialState 7 (always (dyadic 2 2))) [Resize (Some (400, 300)) 2]))
     \<notin> set (snake (startGame (run (initialState 7 (always (dyadic 2 2)))
                                  [Resize (Some (400, 300)) 2]))) \<and>
   food (snd (tick ((game [\<lparr>x = 6, y = 6\<rparr>, \<lparr>x = 5, y = 6\<rparr>, \<lparr>x = 4, y = 6\<rparr>] \<lparr>x = 7, y = 6\<rparr> Right Right)
                     \<lparr>random := always (dyadic 3 2)\<rparr>)))
     \<notin> set (snake (snd (tick ((game [\<lparr>x = 6, y = 6\<rparr>, \<lparr>x = 5, y = 6\<rparr>, \<lparr>x = 4, y = 6\<rparr>] \<lparr>x = 7, y = 6\<rparr> Right Right)
                     \<lparr>random := always (dyadic 3 2)\<rparr>))))"
proof -
  let ?sn = "[\<lparr>x = 6, y = 6\<rparr>, \<lparr>x = 5, y = 6\<rparr>, \<lparr>x = 4, y = 6\<rparr>]"
  let ?bd = "boardOf 12 12"
  let ?r = "always (dyadic 3 2)"
  let ?h = "always (dyadic 2 2)"
  let ?s = "run (initialState 7 (always (dyadic 2 2))) [Resize (Some (400, 300)) 2]"
  let ?g = "(game ?sn \<lparr>x = 7, y = 6\<rparr> Right Right)\<lparr>random := always (dyadic 3 2)\<rparr>"
  have u: "unit_draws ?r \<and> 0 < cols ?bd \<and> 0 < rows ?bd"
    by (simp add: unit_draws_def unitDouble_def always_def dyadic_def boardOf_def)
  have f: "\<not> ((\<forall>k<500. sample ?bd ?r k \<in> set ?sn) \<and> \<lparr>x = 0, y = 0\<rparr> \<in> set ?sn)"
    by simp
  have f': "\<not> ((\<forall>k<500. sample ?bd ?h k \<in> set ?sn) \<and> \<lparr>x = 0, y = 0\<rparr> \<in> set ?sn)"
    by simp
  have "board ?s = \<lparr>cols = 28, rows = 21, cell = 14, width = 392, height = 294, dpr = 2\<rparr>"
    by (simp add: run_def resized)
  moreover have "reachable ?s" by (intro reachable_run reachable.first)
  ultimately have s: "cols (board ?s) \<noteq> 0 \<and> (2 \<le> rows (board ?s) \<or> reachable ?s)" by simp
  have t: "fst (tick ?g) = Inr (Some Ate) \<and>
           snake (snd (tick ?g)) = \<lparr>x = 7, y = 6\<rparr> # ?sn"
    using tick_cons [of ?g "\<lparr>x = 6, y = 6\<rparr>" "[\<lparr>x = 5, y = 6\<rparr>, \<lparr>x = 4, y = 6\<rparr>]" Right]
    by (simp add: game_def boardOf_def inGrid_def moved_def)
  then have g: "\<not> ((\<forall>k<500. sample (board ?g) (random ?g) k \<in> set (snake (snd (tick ?g)))) \<and>
                  \<lparr>x = 0, y = 0\<rparr> \<in> set (snake (snd (tick ?g))))"
    by simp
  from spawnFood_lands [of ?r ?bd ?sn ?s] u f s
  have 1: "inGrid ?bd (fst (spawnFood ?sn ?bd ?r)) \<and> fst (spawnFood ?sn ?bd ?r) \<notin> set ?sn \<and>
           food (startGame ?s) \<notin> set (snake (startGame ?s))"
    by blast
  from spawnFood_lands [of ?h ?bd ?sn ?g] f' t g
  have 2: "fst (spawnFood ?sn ?bd ?h) \<notin> set ?sn \<and>
           food (snd (tick ?g)) \<notin> set (snake (snd (tick ?g)))"
    by blast
  from 1 2 show ?thesis by blast
qed

subsection \<open>The sampling loop\<close>

lemma sample_tie:
  "sample (boardOf 12 12) (always (dyadic 3752999689475413 52)) k = \<lparr>x = 10, y = 10\<rparr>"
  using randomInt_rounds_up by (simp add: sample_def always_def boardOf_def)

text \<open>
  Claim C9. \<open>spawnFood\<close> makes at most 500 attempts. Either some attempt \<open>k < 500\<close> is
  the first to draw a cell off the snake, and that cell is returned after \<open>2 k + 2\<close> draws;
  or all 500 attempts draw cells of the snake, and \<open>(0,0)\<close> is returned after 1000 draws,
  whether the snake lies on it or not. Each attempt draws a cell of the board: with draws
  that are doubles in \<open>[0,1)\<close>, the column is the product of the first draw and \<open>cols\<close>
  rounded down, or one more than that when the double product rounds up to the next
  whole number, and it is below \<open>cols\<close>; likewise the row. How the draws themselves are
  distributed is up to \<open>Math.random\<close>.
\<close>
theorem spawnFood_sampling:
  "((\<exists>k<500. (\<forall>j<k. sample bd r j \<in> set sn) \<and> sample bd r k \<notin> set sn \<and>
        spawnFood sn bd r = (sample bd r k, advance (2 * k + 2) r)) \<or>
    ((\<forall>j<500. sample bd r j \<in> set sn) \<and>
        spawnFood sn bd r = (\<lparr>x = 0, y = 0\<rparr>, advance 1000 r))) \<and>
   (unit_draws r \<and> 0 < cols bd \<and> 0 < rows bd \<longrightarrow> inGrid bd (sample bd r k)) \<and>
   (unit_draws r \<and> 0 < cols bd \<and> cols bd \<le> 2 ^ 53 \<longrightarrow>
      int (mant (r (2 * k)) * nat (cols bd) div 2 ^ expo (r (2 * k))) \<le> x (sample bd r k) \<and>
      x (sample bd r k) \<le> int (mant (r (2 * k)) * nat (cols bd) div 2 ^ expo (r (2 * k))) + 1) \<and>
   (unit_draws r \<and> 0 < rows bd \<and> rows bd \<le> 2 ^ 53 \<longrightarrow>
      int (mant (r (2 * k + 1)) * nat (rows bd) div 2 ^ expo (r (2 * k + 1))) \<le> y (sample bd r k) \<and>
      y (sample bd r k) \<le>
        int (mant (r (2 * k + 1)) * nat (rows bd) div 2 ^ expo (r (2 * k + 1))) + 1)"
proof -
  have p: "(\<exists>k<500. (\<forall>j<k. sample bd r j \<in> set sn) \<and> sample bd r k \<notin> set sn \<and>
        spawnFood sn bd r = (sample bd r k, advance (2 * k + 2) r)) \<or>
    ((\<forall>j<500. sample bd r j \<in> set sn) \<and>
        spawnFood sn bd r = (\<lparr>x = 0, y = 0\<rparr>, advance 1000 r))"
    by (rule spawnFood_cases)
  have q: "unit_draws r \<and> 0 < cols bd \<and> 0 < rows bd \<longrightarrow> inGrid bd (sample bd r k)"
    using sample_in_grid [of r bd k] by (simp add: inGrid_def)
  have u: "unit_draws r \<and> 0 < cols bd \<and> cols bd \<le> 2 ^ 53 \<longrightarrow>
      int (mant (r (2 * k)) * nat (cols bd) div 2 ^ expo (r (2 * k))) \<le> x (sample bd r k) \<and>
      x (sample bd r k) \<le> int (mant (r (2 * k)) * nat (cols bd) div 2 ^ expo (r (2 * k))) + 1"
    using randomInt_bracket [of "r (2 * k)" "cols bd"] by (simp add: sample_def unit_draws_def)
  have v: "unit_draws r \<and> 0 < rows bd \<and> rows bd \<le> 2 ^ 53 \<longrightarrow>
      int (mant (r (2 * k + 1)) * nat (rows bd) div 2 ^ expo (r (2 * k + 1))) \<le> y (sample bd r k) \<and>
      y (sample bd r k) \<le>
        int (mant (r (2 * k + 1)) * nat (rows bd) div 2 ^ expo (r (2 * k + 1))) + 1"
    using randomInt_bracket [of "r (2 * k + 1)" "rows bd"] by (simp add: sample_def unit_draws_def)
  from p q u v show ?thesis by blast
qed

theorem spawnFood_sampling_witness:
  "fst (spawnFood [\<lparr>x = 0, y = 0\<rparr>] (boardOf 12 12) (always (dyadic 0 0))) = \<lparr>x = 0, y = 0\<rparr> \<and>
   \<lparr>x = 0, y = 0\<rparr> \<in> set [\<lparr>x = 0, y = 0\<rparr>] \<and>
   fst (spawnFood [\<lparr>x = 10, y = 10\<rparr>, \<lparr>x = 0, y = 0\<rparr>] (boardOf 12 12)
          (always (dyadic 3752999689475413 52))) = \<lparr>x = 0, y = 0\<rparr> \<and>
   fst (spawnFood [\<lparr>x = 6, y = 6\<rparr>, \<lparr>x = 5, y = 6\<rparr>, \<lparr>x = 4, y = 6\<rparr>] (boardOf 12 12)
          (always (dyadic 3 2)))
     = \<lparr>x = 9, y = 9\<rparr> \<and>
   inGrid (boardOf 12 12) (sample (boardOf 12 12) (always (dyadic 3752999689475413 52)) 7) \<and>
   9 \<le> x (sample (boardOf 12 12) (always (dyadic 3752999689475413 52)) 7) \<and>
   x (sample (boardOf 12 12) (always (dyadic 3752999689475413 52)) 7) \<le> 10"
proof -
  let ?bd = "boardOf 12 12"
  let ?sn = "[\<lparr>x = 6, y = 6\<rparr>, \<lparr>x = 5, y = 6\<rparr>, \<lparr>x = 4, y = 6\<rparr>]"
  let ?tn = "[\<lparr>x = 10, y = 10\<rparr>, \<lparr>x = 0, y = 0\<rparr>]"
  let ?z = "always (dyadic 0 0)"
  let ?t = "always (dyadic 3 2)"
  let ?u = "always (dyadic 3752999689475413 52)"
  have z: "\<And>k. sample ?bd ?z k = \<lparr>x = 0, y = 0\<rparr>"
    by (simp add: sample_exact boardOf_def)
  have u: "unit_draws ?u \<and> 0 < cols ?bd \<and> 0 < rows ?bd \<and> cols ?bd \<le> 2 ^ 53"
    by (simp add: unit_draws_def unitDouble_def always_def dyadic_def boardOf_def)
  have ex: "int (mant (?u (2 * 7)) * nat (cols ?bd) div 2 ^ expo (?u (2 * 7))) = 9"
    by (simp add: always_def dyadic_def boardOf_def)
  have d1: "(\<exists>k<500. (\<forall>j<k. sample ?bd ?z j \<in> set [\<lparr>x = 0, y = 0\<rparr>]) \<and>
               sample ?bd ?z k \<notin> set [\<lparr>x = 0, y = 0\<rparr>] \<and>
               spawnFood [\<lparr>x = 0, y = 0\<rparr>] ?bd ?z = (sample ?bd ?z k, advance (2 * k + 2) ?z)) \<or>
            ((\<forall>j<500. sample ?bd ?z j \<in> set [\<lparr>x = 0, y = 0\<rparr>]) \<and>
               spawnFood [\<lparr>x = 0, y = 0\<rparr>] ?bd ?z = (\<lparr>x = 0, y = 0\<rparr>, advance 1000 ?z))"
    using spawnFood_sampling [of ?bd ?z "[\<lparr>x = 0, y = 0\<rparr>]" 0] by (rule conjunct1)
  have "\<not> (\<exists>k<500. sample ?bd ?z k \<notin> set [\<lparr>x = 0, y = 0\<rparr>])"
    by (simp add: z)
  with d1 have 1: "fst (spawnFood [\<lparr>x = 0, y = 0\<rparr>] ?bd ?z) = \<lparr>x = 0, y = 0\<rparr>"
    by auto
  have d2: "(\<exists>k<500. (\<forall>j<k. sample ?bd ?u j \<in> set ?tn) \<and> sample ?bd ?u k \<notin> set ?tn \<and>
               spawnFood ?tn ?bd ?u = (sample ?bd ?u k, advance (2 * k + 2) ?u)) \<or>
            ((\<forall>j<500. sample ?bd ?u j \<in> set ?tn) \<and>
               spawnFood ?tn ?bd ?u = (\<lparr>x = 0, y = 0\<rparr>, advance 1000 ?u))"
    using spawnFood_sampling [of ?bd ?u ?tn 0] by (rule conjunct1)
  have "\<not> (\<exists>k<500. sample ?bd ?u k \<notin> set ?tn)"
    by (simp add: sample_tie)
  with d2 have 2: "fst (spawnFood ?tn ?bd ?u) = \<lparr>x = 0, y = 0\<rparr>"
    by auto
  have d3: "(\<exists>k<500. (\<forall>j<k. sample ?bd ?t j \<in> set ?sn) \<and> sample ?bd ?t k \<notin> set ?sn \<and>
               spawnFood ?sn ?bd ?t = (sample ?bd ?t k, advance (2 * k + 2) ?t)) \<or>
            ((\<forall>j<500. sample ?bd ?t j \<in> set ?sn) \<and>
               spawnFood ?sn ?bd ?t = (\<lparr>x = 0, y = 0\<rparr>, advance 1000 ?t))"
    using spawnFood_sampling [of ?bd ?t ?sn 0] by (rule conjunct1)
  have "(0::nat) < 500 \<and> sample ?bd ?t 0 \<notin> set ?sn" by (simp add: sample_three_quarters)
  then have "\<not> (\<forall>j<500. sample ?bd ?t j \<in> set ?sn)" by blast
  with d3 obtain k where "spawnFood ?sn ?bd ?t = (sample ?bd ?t k, advance (2 * k + 2) ?t)"
    by blast
  then have 3: "fst (spawnFood ?sn ?bd ?t) = \<lparr>x = 9, y = 9\<rparr>"
    by (simp add: sample_three_quarters)
  from spawnFood_sampling [of ?bd ?u ?tn 7] u
  have "inGrid ?bd (sample ?bd ?u 7) \<and>
        int (mant (?u (2 * 7)) * nat (cols ?bd) div 2 ^ expo (?u (2 * 7))) \<le> x (sample ?bd ?u 7) \<and>
        x (sample ?bd ?u 7) \<le> int (mant (?u (2 * 7)) * nat (cols ?bd) div 2 ^ expo (?u (2 * 7))) + 1"
    by blast
  then have 4: "inGrid ?bd (sample ?bd ?u 7) \<and> 9 \<le> x (sample ?bd ?u 7) \<and> x (sample ?bd ?u 7) \<le> 10"
    by (simp only: ex) simp
  from 1 2 3 4 show ?thesis by simp
qed

subsection \<open>A key that is not a direction\<close>

lemma handleKey_unknown:
  "controls (toLowerCase k) = None \<Longrightarrow> toLowerCase k \<notin> {'' '', ''enter'', ''r''} \<Longrightarrow>
   handleKey k s = s"
  by (simp add: handleKey_def Let_def)

lemma lookupOpposite_direction: "lookupOpposite v \<noteq> Some ObjectConstructor"
  by (cases v) simp_all

lemma handleKey_constructor:
  "handleKey ''constructor'' s = s\<lparr>pendingDirection := ObjectConstructor\<rparr>"
proof -
  have k: "toLowerCase ''constructor'' = ''constructor''" by code_simp
  have c: "controls ''constructor'' = Some ObjectConstructor" by code_simp
  show ?thesis
    by (simp add: handleKey_def Let_def k c requestDirection_def lookupOpposite_direction)
qed

text \<open>
  Claim C5 says that the handlers never throw and that every input that is not legal ends
  in a no-op or a fallback. That holds for an unsized board, for the opposite direction,
  for a key that \<open>controls\<close> does not find (\<open>handleKey_unknown\<close>), for sampling that fails
  500 times, and \<open>tick\<close> returns on a snake with a pending direction (\<open>tick_returns\<close>). It
  fails for the key \<open>constructor\<close>, which \<open>controls\<close> finds in \<open>Object.prototype\<close>: after a
  resize, a click on start and that key, the game is running, the pending direction is
  the function \<open>Object\<close>, and the next \<open>tick\<close> throws a \<open>TypeError\<close>.
\<close>
theorem inherited_key_throws:
  "status (run (initialState 0 (always (dyadic 2 2)))
             [Resize (Some (400, 300)) 2, ClickStart, KeyDown ''constructor'']) = Running \<and>
   pendingDirection (run (initialState 0 (always (dyadic 2 2)))
             [Resize (Some (400, 300)) 2, ClickStart, KeyDown ''constructor'']) = ObjectConstructor \<and>
   fst (tick (run (initialState 0 (always (dyadic 2 2)))
             [Resize (Some (400, 300)) 2, ClickStart, KeyDown ''constructor''])) = Inl TypeError"
proof -
  let ?i = "initialState 0 (always (dyadic 2 2))"
  let ?a = "updateBoard (Some (400, 300)) 2 ?i"
  let ?b = "startGame ?a"
  let ?c = "handleKey ''constructor'' ?b"
  have r: "run ?i [Resize (Some (400, 300)) 2, ClickStart, KeyDown ''constructor''] = ?c"
    by (simp add: run_def)
  have bd: "board ?b = \<lparr>cols = 28, rows = 21, cell = 14, width = 392, height = 294, dpr = 2\<rparr>"
    by (simp add: startGame_keeps resized)
  have "cols (board ?a) \<noteq> 0" by (simp add: resized)
  then have st: "status ?b = Running" by (simp add: startGame_def)
  have c: "?c = ?b\<lparr>pendingDirection := ObjectConstructor\<rparr>" by (rule handleKey_constructor)
  have "cols (board ?c) \<noteq> 0" "rows (board ?c) \<noteq> 0" by (simp_all add: c bd)
  moreover have "lookupVector (pendingDirection ?c) = None" by (simp add: c)
  ultimately have "fst (tick ?c) = Inl TypeError" by (simp add: tick_throws)
  moreover have "status ?c = Running" by (simp add: c st)
  moreover have "pendingDirection ?c = ObjectConstructor" by (simp add: c)
  ultimately show ?thesis by (simp only: r)
qed

end
